(* ===== verification/Natasha_Prelude.thy ===== *)
theory Natasha_Prelude
  imports Main "HOL-Library.Word" "HOL-Library.Monad_Syntax"
begin

text \<open>
  Shared vocabulary of the development: the machine integers of the C code, the byte
  buffers the packets live in, and the byte-order conversions.

  Everything here is generic.  The host is little-endian (the branch
  \<open>RTE_BYTE_ORDER == RTE_LITTLE_ENDIAN\<close> of \<open>src/src/core.c\<close>), so a
  multi-byte load reads the least significant byte at the lowest address and the
  \<open>rte_be_to_cpu\<close> and \<open>rte_cpu_to_be\<close> conversions reverse the bytes.

  Convention: \<open>None\<close> of a computation is undefined behaviour of the C program
  (a null dereference, an access outside an object, an access to a freed packet, a
  shift by the width of the type).  Error returns of the C functions are ordinary
  integer results.
\<close>

unbundle bit_operations_syntax

type_synonym u8 = "8 word"
type_synonym u16 = "16 word"
type_synonym u32 = "32 word"
type_synonym u64 = "64 word"
type_synonym bytes = "u8 list"

named_theorems buf_simps \<open>loads and stores on byte buffers that are in range\<close>
named_theorems codec_simps \<open>round trips between machine integers and their bytes\<close>

section \<open>Bytes of a machine integer\<close>

definition byte_of :: "nat \<Rightarrow> 'a::len word \<Rightarrow> u8" where
  "byte_of k w = ucast (drop_bit (8 * k) w)"

definition le16 :: "u8 \<Rightarrow> u8 \<Rightarrow> u16" where
  "le16 b0 b1 = ucast b0 OR push_bit 8 (ucast b1)"

definition le32 :: "u8 \<Rightarrow> u8 \<Rightarrow> u8 \<Rightarrow> u8 \<Rightarrow> u32" where
  "le32 b0 b1 b2 b3 =
     ucast b0 OR push_bit 8 (ucast b1) OR push_bit 16 (ucast b2) OR push_bit 24 (ucast b3)"

lemma bit_byte_of [bit_simps]:
  "bit (byte_of k w) n \<longleftrightarrow> n < 8 \<and> bit w (n + 8 * k)"
  by (auto simp: byte_of_def bit_simps add.commute dest: bit_imp_le_length)

lemma bit_le16 [bit_simps]:
  "bit (le16 b0 b1) n \<longleftrightarrow> (if n < 8 then bit b0 n else n < 16 \<and> bit b1 (n - 8))"
  by (auto simp: le16_def bit_simps dest: bit_imp_le_length)

lemma bit_le32 [bit_simps]:
  "bit (le32 b0 b1 b2 b3) n \<longleftrightarrow>
     (if n < 8 then bit b0 n else if n < 16 then bit b1 (n - 8)
      else if n < 24 then bit b2 (n - 16) else n < 32 \<and> bit b3 (n - 24))"
  by (auto simp: le32_def bit_simps dest: bit_imp_le_length)

lemma le16_byte_of [codec_simps]: "le16 (byte_of 0 w) (byte_of (Suc 0) w) = w"
  by (rule bit_word_eqI) (auto simp: bit_simps)

lemma le32_byte_of [codec_simps]:
  "le32 (byte_of 0 w) (byte_of (Suc 0) w) (byte_of 2 w) (byte_of 3 w) = w"
  by (rule bit_word_eqI) (auto simp: bit_simps)

lemma byte_of_le16 [codec_simps]:
  "byte_of 0 (le16 b0 b1) = b0" "byte_of (Suc 0) (le16 b0 b1) = b1"
  by (rule bit_word_eqI; auto simp: bit_simps)+

lemma byte_of_le32 [codec_simps]:
  "byte_of 0 (le32 b0 b1 b2 b3) = b0" "byte_of (Suc 0) (le32 b0 b1 b2 b3) = b1"
  "byte_of 2 (le32 b0 b1 b2 b3) = b2" "byte_of 3 (le32 b0 b1 b2 b3) = b3"
  by (rule bit_word_eqI; auto simp: bit_simps)+

lemma le16_plus: "le16 b0 b1 = ucast b0 + push_bit 8 (ucast b1)"
proof -
  have "ucast b0 AND push_bit 8 (ucast b1 :: u16) = 0"
    by (rule bit_word_eqI) (auto simp: bit_simps dest: bit_imp_le_length)
  then show ?thesis by (simp add: le16_def disjunctive_add_eq_or)
qed

lemma unat_bounds:
  "unat (b :: u8) < 256" "unat (h :: u16) < 65536" "unat (w :: u32) < 4294967296"
  using unsigned_less [where 'a = nat, of b] unsigned_less [where 'a = nat, of h]
    unsigned_less [where 'a = nat, of w] by simp_all

lemma unat_ucast_wider [simp]:
  "unat (ucast (b :: u8) :: u16) = unat b" "unat (ucast (b :: u8) :: u32) = unat b"
  "unat (ucast (h :: u16) :: u32) = unat h"
  using unat_bounds(1) [of b] unat_bounds(2) [of h]
  by (simp_all add: unsigned_ucast_eq take_bit_nat_eq_self_iff)

lemma unat_le16: "unat (le16 b0 b1) = unat b0 + 256 * unat b1"
  using unat_bounds(1) [of b0] unat_bounds(1) [of b1]
  by (simp add: le16_plus unat_word_ariths push_bit_eq_mult)

lemma le32_le16: "le32 b0 b1 b2 b3 = ucast (le16 b0 b1) + push_bit 16 (ucast (le16 b2 b3))"
proof -
  have "ucast (le16 b0 b1) AND push_bit 16 (ucast (le16 b2 b3) :: u32) = 0"
    by (rule bit_word_eqI) (auto simp: bit_simps dest: bit_imp_le_length)
  moreover have "le32 b0 b1 b2 b3 = ucast (le16 b0 b1) OR push_bit 16 (ucast (le16 b2 b3))"
    by (rule bit_word_eqI) (auto simp: bit_simps dest: bit_imp_le_length)
  ultimately show ?thesis by (simp add: disjunctive_add_eq_or)
qed

lemma unat_le32: "unat (le32 b0 b1 b2 b3) = unat (le16 b0 b1) + 65536 * unat (le16 b2 b3)"
  using unat_bounds(2) [of "le16 b0 b1"] unat_bounds(2) [of "le16 b2 b3"]
  by (simp add: le32_le16 unat_word_ariths push_bit_eq_mult)

section \<open>Byte order\<close>

text \<open>\<open>rte_be_to_cpu_16\<close> and its kin, on a little-endian host.\<close>

definition bswap16 :: "u16 \<Rightarrow> u16" where
  "bswap16 w = le16 (byte_of 1 w) (byte_of 0 w)"

definition bswap32 :: "u32 \<Rightarrow> u32" where
  "bswap32 w = le32 (byte_of 3 w) (byte_of 2 w) (byte_of 1 w) (byte_of 0 w)"

lemma bswap16_bswap16 [simp]: "bswap16 (bswap16 w) = w"
  by (simp add: bswap16_def codec_simps)

lemma bswap32_bswap32 [simp]: "bswap32 (bswap32 w) = w"
  by (simp add: bswap32_def codec_simps)

lemma bswap32_inject [simp]: "bswap32 v = bswap32 w \<longleftrightarrow> v = w"
  by (metis bswap32_bswap32)

lemma bswap32_0 [simp]: "bswap32 0 = 0"
  by (simp add: bswap32_def byte_of_def le32_def)

lemma bswap32_eq_0_iff [simp]: "bswap32 w = 0 \<longleftrightarrow> w = 0"
  by (metis bswap32_bswap32 bswap32_0)

section \<open>Loads and stores on a byte buffer\<close>

text \<open>
  The total readers and writers \<open>rd\<close>, \<open>wr\<close> describe an access that is in
  range; the checked \<open>ld\<close>, \<open>st\<close> are what the model of the C code calls: an
  access outside the buffer is undefined.
\<close>

definition rd16 :: "bytes \<Rightarrow> nat \<Rightarrow> u16" where
  "rd16 b i = le16 (b ! i) (b ! (i + 1))"

definition rd32 :: "bytes \<Rightarrow> nat \<Rightarrow> u32" where
  "rd32 b i = le32 (b ! i) (b ! (i + 1)) (b ! (i + 2)) (b ! (i + 3))"

definition rdn :: "bytes \<Rightarrow> nat \<Rightarrow> nat \<Rightarrow> bytes" where
  "rdn b i n = take n (drop i b)"

definition wrn :: "bytes \<Rightarrow> nat \<Rightarrow> bytes \<Rightarrow> bytes" where
  "wrn b i v = take i b @ v @ drop (i + length v) b"

definition wr16 :: "bytes \<Rightarrow> nat \<Rightarrow> u16 \<Rightarrow> bytes" where
  "wr16 b i v = wrn b i [byte_of 0 v, byte_of 1 v]"

definition wr32 :: "bytes \<Rightarrow> nat \<Rightarrow> u32 \<Rightarrow> bytes" where
  "wr32 b i v = wrn b i [byte_of 0 v, byte_of 1 v, byte_of 2 v, byte_of 3 v]"

definition ld8 :: "bytes \<Rightarrow> nat \<Rightarrow> u8 option" where
  "ld8 b i = (if i < length b then Some (b ! i) else None)"

definition ld16 :: "bytes \<Rightarrow> nat \<Rightarrow> u16 option" where
  "ld16 b i = (if i + 2 \<le> length b then Some (rd16 b i) else None)"

definition ld32 :: "bytes \<Rightarrow> nat \<Rightarrow> u32 option" where
  "ld32 b i = (if i + 4 \<le> length b then Some (rd32 b i) else None)"

definition ldn :: "bytes \<Rightarrow> nat \<Rightarrow> nat \<Rightarrow> bytes option" where
  "ldn b i n = (if i + n \<le> length b then Some (rdn b i n) else None)"

definition stn :: "bytes \<Rightarrow> nat \<Rightarrow> bytes \<Rightarrow> bytes option" where
  "stn b i v = (if i + length v \<le> length b then Some (wrn b i v) else None)"

definition st8 :: "bytes \<Rightarrow> nat \<Rightarrow> u8 \<Rightarrow> bytes option" where
  "st8 b i v = stn b i [v]"

definition st16 :: "bytes \<Rightarrow> nat \<Rightarrow> u16 \<Rightarrow> bytes option" where
  "st16 b i v = (if i + 2 \<le> length b then Some (wr16 b i v) else None)"

definition st32 :: "bytes \<Rightarrow> nat \<Rightarrow> u32 \<Rightarrow> bytes option" where
  "st32 b i v = (if i + 4 \<le> length b then Some (wr32 b i v) else None)"

lemma ld_in_range [buf_simps]:
  "i < length b \<Longrightarrow> ld8 b i = Some (b ! i)"
  "i + 2 \<le> length b \<Longrightarrow> ld16 b i = Some (rd16 b i)"
  "i + 4 \<le> length b \<Longrightarrow> ld32 b i = Some (rd32 b i)"
  "i + n \<le> length b \<Longrightarrow> ldn b i n = Some (rdn b i n)"
  by (simp_all add: ld8_def ld16_def ld32_def ldn_def)

lemma st_in_range [buf_simps]:
  "i < length b \<Longrightarrow> st8 b i v = Some (wrn b i [v])"
  "i + 2 \<le> length b \<Longrightarrow> st16 b i w = Some (wr16 b i w)"
  "i + 4 \<le> length b \<Longrightarrow> st32 b i x = Some (wr32 b i x)"
  "i + length vs \<le> length b \<Longrightarrow> stn b i vs = Some (wrn b i vs)"
  by (simp_all add: st8_def st16_def st32_def stn_def)

lemma length_wrn [buf_simps]: "i + length v \<le> length b \<Longrightarrow> length (wrn b i v) = length b"
  by (simp add: wrn_def)

lemma length_wr16 [buf_simps]: "i + 2 \<le> length b \<Longrightarrow> length (wr16 b i v) = length b"
  by (simp add: wr16_def length_wrn)

lemma length_wr32 [buf_simps]: "i + 4 \<le> length b \<Longrightarrow> length (wr32 b i v) = length b"
  by (simp add: wr32_def length_wrn)

lemma length_rdn [buf_simps]: "i + n \<le> length b \<Longrightarrow> length (rdn b i n) = n"
  by (simp add: rdn_def)

lemma nth_beyond: "length b \<le> k \<Longrightarrow> b ! k = [] ! (k - length b)"
  using nth_append [of b "[]" k] by simp

lemma nth_wrn:
  assumes "i + length v \<le> length b"
  shows "wrn b i v ! k = (if i \<le> k \<and> k < i + length v then v ! (k - i) else b ! k)"
proof (cases "k < length b")
  case True
  with assms show ?thesis by (auto simp: wrn_def nth_append min_def)
next
  case False
  with assms have "wrn b i v ! k = [] ! (k - length b)"
    by (subst nth_beyond) (auto simp: length_wrn)
  with assms False nth_beyond [of b k] show ?thesis by auto
qed

lemma nth_wr16:
  assumes "i + 2 \<le> length b"
  shows "wr16 b i v ! k =
    (if k = i then byte_of 0 v else if k = Suc i then byte_of 1 v else b ! k)"
  using assms by (auto simp: wr16_def nth_wrn nth_Cons' le_Suc_eq)

lemma nth_wr32:
  assumes "i + 4 \<le> length b"
  shows "wr32 b i v ! k =
    (if k = i then byte_of 0 v else if k = i + 1 then byte_of 1 v
     else if k = i + 2 then byte_of 2 v else if k = i + 3 then byte_of 3 v else b ! k)"
  using assms by (auto simp: wr32_def nth_wrn nth_Cons')

lemma rd16_wr16 [buf_simps]: "i + 2 \<le> length b \<Longrightarrow> rd16 (wr16 b i v) i = v"
  by (simp add: rd16_def nth_wr16 le16_byte_of)

lemma rd32_wr32 [buf_simps]: "i + 4 \<le> length b \<Longrightarrow> rd32 (wr32 b i v) i = v"
  by (simp add: rd32_def nth_wr32 le32_byte_of)

lemma rdn_wrn [buf_simps]: "i + length v \<le> length b \<Longrightarrow> n = length v \<Longrightarrow> rdn (wrn b i v) i n = v"
  by (simp add: rdn_def wrn_def)

text \<open>Accesses that do not overlap commute: the frame rules of the buffer.\<close>

lemma rd16_frame:
  assumes "\<And>k. k < 2 \<Longrightarrow> b' ! (j + k) = b ! (j + k)"
  shows "rd16 b' j = rd16 b j"
  using assms [of 0] assms [of 1] by (simp add: rd16_def)

lemma rd32_frame:
  assumes "\<And>k. k < 4 \<Longrightarrow> b' ! (j + k) = b ! (j + k)"
  shows "rd32 b' j = rd32 b j"
  using assms [of 0] assms [of 1] assms [of 2] assms [of 3] by (simp add: rd32_def)

lemma rdn_frame:
  assumes "length b' = length b" and "\<And>k. k < n \<Longrightarrow> j + k < length b \<Longrightarrow> b' ! (j + k) = b ! (j + k)"
  shows "rdn b' j n = rdn b j n"
  using assms by (auto simp: rdn_def intro!: nth_equalityI)

lemma rd16_wr_other [buf_simps]:
  "i + 2 \<le> length b \<Longrightarrow> j + 2 \<le> i \<or> i + 2 \<le> j \<Longrightarrow> rd16 (wr16 b i v) j = rd16 b j"
  "i + 4 \<le> length b \<Longrightarrow> j + 2 \<le> i \<or> i + 4 \<le> j \<Longrightarrow> rd16 (wr32 b i w) j = rd16 b j"
  "i + length vs \<le> length b \<Longrightarrow> j + 2 \<le> i \<or> i + length vs \<le> j \<Longrightarrow> rd16 (wrn b i vs) j = rd16 b j"
  by (rule rd16_frame; auto simp: nth_wr16 nth_wr32 nth_wrn)+

lemma rd32_wr_other [buf_simps]:
  "i + 2 \<le> length b \<Longrightarrow> j + 4 \<le> i \<or> i + 2 \<le> j \<Longrightarrow> rd32 (wr16 b i v) j = rd32 b j"
  "i + 4 \<le> length b \<Longrightarrow> j + 4 \<le> i \<or> i + 4 \<le> j \<Longrightarrow> rd32 (wr32 b i w) j = rd32 b j"
  "i + length vs \<le> length b \<Longrightarrow> j + 4 \<le> i \<or> i + length vs \<le> j \<Longrightarrow> rd32 (wrn b i vs) j = rd32 b j"
  by (rule rd32_frame; auto simp: nth_wr16 nth_wr32 nth_wrn)+

lemma rdn_wr_other [buf_simps]:
  "i + 2 \<le> length b \<Longrightarrow> j + n \<le> i \<or> i + 2 \<le> j \<Longrightarrow> rdn (wr16 b i v) j n = rdn b j n"
  "i + 4 \<le> length b \<Longrightarrow> j + n \<le> i \<or> i + 4 \<le> j \<Longrightarrow> rdn (wr32 b i w) j n = rdn b j n"
  "i + length vs \<le> length b \<Longrightarrow> j + n \<le> i \<or> i + length vs \<le> j \<Longrightarrow> rdn (wrn b i vs) j n = rdn b j n"
  by (rule rdn_frame; auto simp: nth_wr16 nth_wr32 nth_wrn buf_simps)+

lemma nth_wr_other [buf_simps]:
  "i + 2 \<le> length b \<Longrightarrow> k < i \<or> i + 2 \<le> k \<Longrightarrow> wr16 b i v ! k = b ! k"
  "i + 4 \<le> length b \<Longrightarrow> k < i \<or> i + 4 \<le> k \<Longrightarrow> wr32 b i w ! k = b ! k"
  "i + length vs \<le> length b \<Longrightarrow> k < i \<or> i + length vs \<le> k \<Longrightarrow> wrn b i vs ! k = b ! k"
  by (auto simp: nth_wr16 nth_wr32 nth_wrn)

lemma nth_wrn_single [buf_simps]: "i < length b \<Longrightarrow> wrn b i [v] ! i = v"
  by (simp add: nth_wrn)

section \<open>Conditional undefined behaviour\<close>

text \<open>\<open>guard P\<close> is defined exactly when \<open>P\<close> holds.\<close>

definition guard :: "bool \<Rightarrow> unit option" where
  "guard P = (if P then Some () else None)"

lemma guard_simps [simp]: "guard True = Some ()" "guard False = None"
  by (simp_all add: guard_def)

lemma guard_eq_Some [simp]: "guard P = Some u \<longleftrightarrow> P"
  by (simp add: guard_def)

end
