(* ===== verification/Nat_Table.thy ===== *)
theory Nat_Table
  imports Natasha_Prelude
begin

text \<open>
  The NAT lookup table of \<open>src/src/action_nat.c\<close>: a three-level table indexed by the
  first byte, the second byte and the last two bytes of an address, whose blocks come
  from \<open>rte_zmalloc_socket\<close>.

  Blocks carry their address, so that leaks and double frees are visible: the heap
  records which addresses are live, an allocation yields a fresh one or fails as the
  environment decides, and freeing an address that is not live is undefined.  The
  arrays of the C code (256, 256 and 65536 entries, zero-initialised) are functions on
  indices; the index computations stay in range (\<open>key_index_bounds\<close>).
\<close>

section \<open>The allocator\<close>

text \<open>
  \<open>alloc_ok\<close> is the environment: whether the request that would yield a given address
  succeeds.
\<close>

record heap =
  next_addr :: nat
  live :: "nat set"
  alloc_ok :: "nat \<Rightarrow> bool"

definition rte_zmalloc :: "heap \<Rightarrow> nat option \<times> heap" where
  "rte_zmalloc h =
    (let a = next_addr h; h = h\<lparr>next_addr := Suc a\<rparr>
     in if alloc_ok h a then (Some a, h\<lparr>live := insert a (live h)\<rparr>) else (None, h))"

definition rte_free :: "nat \<Rightarrow> heap \<Rightarrow> heap option" where
  "rte_free a h = (if a \<in> live h then Some (h\<lparr>live := live h - {a}\<rparr>) else None)"

text \<open>\<open>rte_free\<close> of a pointer that may be null.\<close>

definition rte_free_ptr :: "nat option \<Rightarrow> heap \<Rightarrow> heap option" where
  "rte_free_ptr p h = (case p of None \<Rightarrow> Some h | Some a \<Rightarrow> rte_free a h)"

section \<open>The table\<close>

definition lkp_fs :: nat where "lkp_fs = 256"
definition lkp_ss :: nat where "lkp_ss = 256"
definition lkp_ts :: nat where "lkp_ts = 65536"

record leaf_table =
  leaf_addr :: nat
  leaf_ent :: "nat \<Rightarrow> u32"

record second_table =
  second_addr :: nat
  second_ent :: "nat \<Rightarrow> leaf_table option"

record first_table =
  first_addr :: nat
  first_ent :: "nat \<Rightarrow> second_table option"

type_synonym nat_lookup = "first_table option"

definition fstb :: "u32 \<Rightarrow> nat" where
  "fstb ip = unat (drop_bit 24 ip AND 0xff)"

definition sndb :: "u32 \<Rightarrow> nat" where
  "sndb ip = unat (drop_bit 16 ip AND 0xff)"

definition l2b :: "u32 \<Rightarrow> nat" where
  "l2b ip = unat ((ip AND 0xff00) OR (ip AND 0xff))"

text \<open>The result is \<open>None\<close> where the C function returns -1, the stored value where it returns 0.\<close>

definition nat_lookup_ip :: "nat_lookup \<Rightarrow> u32 \<Rightarrow> u32 option" where
  "nat_lookup_ip lookup_table ip =
    (case lookup_table of None \<Rightarrow> None
     | Some t \<Rightarrow> (case first_ent t (fstb ip) of None \<Rightarrow> None
       | Some s \<Rightarrow> (case second_ent s (sndb ip) of None \<Rightarrow> None
         | Some l \<Rightarrow> if leaf_ent l (l2b ip) = 0 then None else Some (leaf_ent l (l2b ip)))))"

text \<open>
  The three steps \<open>if (x == NULL) x = rte_zmalloc_socket(...)\<close> of
  \<open>add_rule_to_table\<close>: the block that is there, or a new zeroed one, or
  \<open>None\<close> if the allocation fails.
\<close>

definition ensure_first :: "nat_lookup \<Rightarrow> heap \<Rightarrow> first_table option \<times> heap" where
  "ensure_first t h =
    (case t of Some t \<Rightarrow> (Some t, h)
     | None \<Rightarrow> (case rte_zmalloc h of (None, h) \<Rightarrow> (None, h)
       | (Some a, h) \<Rightarrow> (Some \<lparr>first_addr = a, first_ent = (\<lambda>_. None)\<rparr>, h)))"

definition ensure_second :: "first_table \<Rightarrow> u32 \<Rightarrow> heap \<Rightarrow> second_table option \<times> heap" where
  "ensure_second t key h =
    (case first_ent t (fstb key) of Some s \<Rightarrow> (Some s, h)
     | None \<Rightarrow> (case rte_zmalloc h of (None, h) \<Rightarrow> (None, h)
       | (Some a, h) \<Rightarrow> (Some \<lparr>second_addr = a, second_ent = (\<lambda>_. None)\<rparr>, h)))"

definition ensure_leaf :: "second_table \<Rightarrow> u32 \<Rightarrow> heap \<Rightarrow> leaf_table option \<times> heap" where
  "ensure_leaf s key h =
    (case second_ent s (sndb key) of Some l \<Rightarrow> (Some l, h)
     | None \<Rightarrow> (case rte_zmalloc h of (None, h) \<Rightarrow> (None, h)
       | (Some a, h) \<Rightarrow> (Some \<lparr>leaf_addr = a, leaf_ent = (\<lambda>_. 0)\<rparr>, h)))"

definition add_rule_to_table ::
  "nat_lookup \<Rightarrow> u32 \<Rightarrow> u32 \<Rightarrow> heap \<Rightarrow> (nat_lookup \<times> heap) option" where
  "add_rule_to_table t key val h =
    (case ensure_first t h of (None, h) \<Rightarrow> Some (None, h)
     | (Some t, h) \<Rightarrow> (case ensure_second t key h of
         (None, h) \<Rightarrow> do {
           h \<leftarrow> rte_free (first_addr t) h;
           Some (None, h) }
       | (Some s, h) \<Rightarrow> (case ensure_leaf s key h of
           (None, h) \<Rightarrow> do {
             h \<leftarrow> rte_free (second_addr s) h;
             h \<leftarrow> rte_free (first_addr t) h;
             Some (None, h) }
         | (Some l, h) \<Rightarrow>
             Some (Some (t\<lparr>first_ent := (first_ent t)(fstb key \<mapsto>
               s\<lparr>second_ent := (second_ent s)(sndb key \<mapsto>
                 l\<lparr>leaf_ent := (leaf_ent l)(l2b key := val)\<rparr>)\<rparr>)\<rparr>), h))))"

text \<open>
  \<open>nat_lookup\<close> is the address of the caller's table variable: the function compares
  that address, not the table, with \<open>NULL\<close>, after it has already read through it.
\<close>

definition add_rules_to_table ::
  "nat \<Rightarrow> nat_lookup \<Rightarrow> u32 \<Rightarrow> u32 \<Rightarrow> heap \<Rightarrow> (int \<times> nat_lookup \<times> heap) option" where
  "add_rules_to_table nat_lookup tbl int_ip ext_ip h = do {
     let ext_ip_formated = bswap32 ext_ip;
     let int_ip_formated = bswap32 int_ip;
     guard (nat_lookup \<noteq> 0);
     (tbl, h) \<leftarrow> add_rule_to_table tbl int_ip ext_ip_formated h;
     if nat_lookup = 0 then Some (-1, tbl, h) else do {
       (tbl, h) \<leftarrow> add_rule_to_table tbl ext_ip int_ip_formated h;
       if nat_lookup = 0 then Some (-1, tbl, h) else Some (0, tbl, h) } }"

section \<open>Freeing the table\<close>

fun free_leaves :: "second_table \<Rightarrow> nat list \<Rightarrow> heap \<Rightarrow> heap option" where
  "free_leaves s [] h = Some h"
| "free_leaves s (j # js) h = do {
     h \<leftarrow> rte_free_ptr (map_option leaf_addr (second_ent s j)) h;
     free_leaves s js h }"

fun free_rows :: "first_table \<Rightarrow> nat list \<Rightarrow> heap \<Rightarrow> heap option" where
  "free_rows t [] h = Some h"
| "free_rows t (i # is) h = do {
     h \<leftarrow> (case first_ent t i of None \<Rightarrow> Some h
          | Some s \<Rightarrow> do { h \<leftarrow> free_leaves s [0..<lkp_ss] h; rte_free (second_addr s) h });
     free_rows t is h }"

definition nat_reset_lookup_table :: "nat_lookup \<Rightarrow> heap \<Rightarrow> heap option" where
  "nat_reset_lookup_table t h =
    (case t of None \<Rightarrow> Some h
     | Some t \<Rightarrow> do { h \<leftarrow> free_rows t [0..<lkp_fs] h; rte_free (first_addr t) h })"

section \<open>Iterating over the table\<close>

definition IPv4 :: "nat \<Rightarrow> nat \<Rightarrow> nat \<Rightarrow> nat \<Rightarrow> u32" where
  "IPv4 a b c d =
    push_bit 24 (word_of_nat a AND 0xff) OR push_bit 16 (word_of_nat b AND 0xff) OR
    push_bit 8 (word_of_nat c AND 0xff) OR (word_of_nat d AND 0xff)"

text \<open>
  The three nested loops, with the state of the callback threaded through; an absent
  callback is the null function pointer.
\<close>

fun iter_leaf ::
  "(u32 \<Rightarrow> u32 \<Rightarrow> 's \<Rightarrow> 's) option \<Rightarrow> nat \<Rightarrow> nat \<Rightarrow> leaf_table \<Rightarrow> nat list \<Rightarrow> nat \<times> 's \<Rightarrow> nat \<times> 's" where
  "iter_leaf func i j l [] (n, s) = (n, s)"
| "iter_leaf func i j l (k # ks) (n, s) =
    (if leaf_ent l k = 0 then iter_leaf func i j l ks (n, s)
     else iter_leaf func i j l ks
       (Suc n, case func of None \<Rightarrow> s
          | Some f \<Rightarrow> f (IPv4 i j (k div 256 mod 256) (k mod 256)) (leaf_ent l k) s))"

fun iter_second ::
  "(u32 \<Rightarrow> u32 \<Rightarrow> 's \<Rightarrow> 's) option \<Rightarrow> nat \<Rightarrow> second_table \<Rightarrow> nat list \<Rightarrow> nat \<times> 's \<Rightarrow> nat \<times> 's" where
  "iter_second func i t [] ns = ns"
| "iter_second func i t (j # js) ns =
    (case second_ent t j of None \<Rightarrow> iter_second func i t js ns
     | Some l \<Rightarrow> iter_second func i t js (iter_leaf func i j l [0..<lkp_ts] ns))"

fun iter_first ::
  "(u32 \<Rightarrow> u32 \<Rightarrow> 's \<Rightarrow> 's) option \<Rightarrow> first_table \<Rightarrow> nat list \<Rightarrow> nat \<times> 's \<Rightarrow> nat \<times> 's" where
  "iter_first func t [] ns = ns"
| "iter_first func t (i # is) ns =
    (case first_ent t i of None \<Rightarrow> iter_first func t is ns
     | Some s \<Rightarrow> iter_first func t is (iter_second func i s [0..<lkp_ss] ns))"

definition nat_iter ::
  "nat_lookup \<Rightarrow> (u32 \<Rightarrow> u32 \<Rightarrow> 's \<Rightarrow> 's) option \<Rightarrow> 's \<Rightarrow> nat \<times> 's" where
  "nat_iter nat_lookup func data =
    (case nat_lookup of None \<Rightarrow> (0, data)
     | Some t \<Rightarrow> (let (n, s) = iter_first func t [0..<lkp_fs] (0, data) in (n div 2, s)))"

text \<open>The text that \<open>dprintf\<close> writes for an address with \<open>IPv4_FMT\<close>.\<close>

fun show_decimal :: "nat \<Rightarrow> string" where
  "show_decimal n =
    (if n < 10 then [char_of (48 + n)] else show_decimal (n div 10) @ [char_of (48 + n mod 10)])"

declare show_decimal.simps [simp del]

definition IPv4_FMT :: "u32 \<Rightarrow> string" where
  "IPv4_FMT ip =
    show_decimal (unat (drop_bit 24 ip AND 0xff)) @ ''.'' @
    show_decimal (unat (drop_bit 16 ip AND 0xff)) @ ''.'' @
    show_decimal (unat (drop_bit 8 ip AND 0xff)) @ ''.'' @
    show_decimal (unat (ip AND 0xff))"

definition nat_dump_rule :: "u32 \<Rightarrow> u32 \<Rightarrow> string list \<Rightarrow> string list" where
  "nat_dump_rule from to out = out @ [IPv4_FMT from @ '' -> '' @ IPv4_FMT to @ [CHR 0x0A]]"

definition nat_dump_rules :: "nat_lookup \<Rightarrow> nat \<times> string list" where
  "nat_dump_rules nat_lookup = nat_iter nat_lookup (Some nat_dump_rule) []"

definition nat_number_of_rules :: "nat_lookup \<Rightarrow> nat" where
  "nat_number_of_rules nat_lookup = fst (nat_iter nat_lookup None ())"

section \<open>Indices and addresses\<close>

lemma mask_literals:
  "(0xff :: u32) = mask 8" "(0xff00 :: u32) = push_bit 8 (mask 8)" "(0xffff :: u32) = mask 16"
  by (simp_all add: mask_eq_exp_minus_1 push_bit_eq_mult)

lemma key_index_bounds: "fstb ip < lkp_fs" "sndb ip < lkp_ss" "l2b ip < lkp_ts"
proof -
  have "unat (w AND mask 8) < 256" for w :: u32
    by (simp add: take_bit_eq_mask [symmetric] unsigned_take_bit_eq take_bit_nat_def)
  then show "fstb ip < lkp_fs" "sndb ip < lkp_ss"
    by (simp_all add: fstb_def sndb_def lkp_fs_def lkp_ss_def mask_literals del: take_bit_eq_mask)
  have "(ip AND 0xff00) OR (ip AND 0xff) = take_bit 16 ip"
    by (rule bit_word_eqI) (auto simp: mask_literals bit_simps)
  then show "l2b ip < lkp_ts"
    by (simp add: l2b_def lkp_ts_def unsigned_take_bit_eq take_bit_nat_def)
qed

lemma key_split:
  "ip = push_bit 24 (word_of_nat (fstb ip)) OR push_bit 16 (word_of_nat (sndb ip)) OR
    word_of_nat (l2b ip)"
proof (rule bit_word_eqI)
  fix n assume "n < LENGTH(32)"
  then consider "n < 8" | "8 \<le> n" "n < 16" | "16 \<le> n" "n < 24" | "24 \<le> n" "n < 32"
    by fastforce
  then show "bit ip n = bit (push_bit 24 (word_of_nat (fstb ip)) OR
      push_bit 16 (word_of_nat (sndb ip)) OR word_of_nat (l2b ip) :: u32) n"
    by cases (simp_all add: fstb_def sndb_def l2b_def mask_literals bit_simps less_diff_conv2)
qed

lemma key_index_inject:
  "fstb ip = fstb key \<Longrightarrow> sndb ip = sndb key \<Longrightarrow> l2b ip = l2b key \<Longrightarrow> ip = key"
  using key_split [of ip] key_split [of key] by simp

lemma IPv4_index: "IPv4 (fstb ip) (sndb ip) (l2b ip div 256 mod 256) (l2b ip mod 256) = ip"
proof -
  define w where "w = take_bit 16 ip"
  have w: "l2b ip = unat w"
    unfolding l2b_def w_def
    by (rule arg_cong [of _ _ unat], rule bit_word_eqI) (auto simp: mask_literals bit_simps)
  have "l2b ip div 256 mod 256 = unat (take_bit 8 (drop_bit 8 w))"
    unfolding w unsigned_take_bit_eq unat_drop_bit_eq
    by (simp add: take_bit_nat_def drop_bit_nat_def)
  moreover have "l2b ip mod 256 = unat (take_bit 8 w)"
    unfolding w unsigned_take_bit_eq by (simp add: take_bit_nat_def)
  ultimately have e: "IPv4 (fstb ip) (sndb ip) (l2b ip div 256 mod 256) (l2b ip mod 256) =
      push_bit 24 (drop_bit 24 ip AND mask 8) OR push_bit 16 (drop_bit 16 ip AND mask 8) OR
      push_bit 8 (take_bit 8 (drop_bit 8 w)) OR take_bit 8 w"
    by (simp add: IPv4_def fstb_def sndb_def mask_literals take_bit_eq_mask [symmetric]
        del: take_bit_eq_mask)
  show ?thesis
    unfolding e w_def
  proof (rule bit_word_eqI)
    fix n assume "n < LENGTH(32)"
    then consider "n < 8" | "8 \<le> n" "n < 16" | "16 \<le> n" "n < 24" | "24 \<le> n" "n < 32"
      by fastforce
    then show "bit (push_bit 24 (drop_bit 24 ip AND mask 8) OR push_bit 16 (drop_bit 16 ip AND mask 8) OR
      push_bit 8 (take_bit 8 (drop_bit 8 (take_bit 16 ip))) OR take_bit 8 (take_bit 16 ip)) n = bit ip n"
      by cases (simp_all add: bit_simps less_diff_conv2)
  qed
qed

section \<open>Blocks of a table\<close>

datatype slot = Root | Row nat | Leaf nat nat

fun block_at :: "nat_lookup \<Rightarrow> slot \<Rightarrow> nat option" where
  "block_at None sl = None"
| "block_at (Some t) Root = Some (first_addr t)"
| "block_at (Some t) (Row i) = map_option second_addr (first_ent t i)"
| "block_at (Some t) (Leaf i j) =
    (case first_ent t i of None \<Rightarrow> None | Some s \<Rightarrow> map_option leaf_addr (second_ent s j))"

fun valid_slot :: "slot \<Rightarrow> bool" where
  "valid_slot Root = True"
| "valid_slot (Row i) = (i < lkp_fs)"
| "valid_slot (Leaf i j) = (i < lkp_fs \<and> j < lkp_ss)"

definition heap_ok :: "heap \<Rightarrow> bool" where
  "heap_ok h \<longleftrightarrow> (\<forall>a \<in> live h. a < next_addr h)"

text \<open>The blocks of the table are live, distinct, and lie at indices the loops visit.\<close>

definition table_ok :: "nat_lookup \<Rightarrow> heap \<Rightarrow> bool" where
  "table_ok t h \<longleftrightarrow> heap_ok h \<and> ran (block_at t) \<subseteq> live h \<and>
     inj_on (block_at t) (dom (block_at t)) \<and> dom (block_at t) \<subseteq> Collect valid_slot"

lemma block_at_None [simp]: "block_at None = (\<lambda>_. None)"
  by (rule ext) simp

lemma table_ok_None [simp]: "table_ok None h \<longleftrightarrow> heap_ok h"
  by (simp add: table_ok_def)

text \<open>One successful allocation that puts its block at an empty slot.\<close>

lemma table_ok_extend:
  assumes "table_ok t h" and "block_at t sl = None" and "valid_slot sl"
    and "block_at t' = (block_at t)(sl \<mapsto> next_addr h)"
    and "h' = h\<lparr>next_addr := Suc (next_addr h), live := insert (next_addr h) (live h)\<rparr>"
  shows "table_ok t' h'" and "live h' - ran (block_at t') = live h - ran (block_at t)"
proof -
  have fresh: "next_addr h \<notin> live h" and sub: "ran (block_at t) \<subseteq> live h"
    using assms(1) by (auto simp: table_ok_def heap_ok_def)
  have ran: "ran (block_at t') = insert (next_addr h) (ran (block_at t))"
    using assms(2,4) by (simp add: ran_map_upd)
  have "heap_ok h'"
    using assms(1,5) by (auto simp: table_ok_def heap_ok_def)
  moreover have "inj_on (block_at t') (dom (block_at t'))"
    using assms(1,2,4) fresh sub by (auto simp: table_ok_def inj_on_def ran_def dom_def)
  ultimately show "table_ok t' h'"
    using assms ran by (auto simp: table_ok_def)
  show "live h' - ran (block_at t') = live h - ran (block_at t)"
    using ran assms(5) fresh sub by auto
qed

text \<open>
  A table that has grown by fresh blocks only: nothing leaks, nothing is shared, and
  lookups are unchanged.
\<close>

definition grows :: "nat_lookup \<Rightarrow> heap \<Rightarrow> nat_lookup \<Rightarrow> heap \<Rightarrow> bool" where
  "grows t h t' h' \<longleftrightarrow> table_ok t' h' \<and> alloc_ok h' = alloc_ok h \<and>
     live h' - ran (block_at t') = live h - ran (block_at t) \<and>
     nat_lookup_ip t' = nat_lookup_ip t"

lemma rte_zmalloc_ok:
  "alloc_ok h (next_addr h) \<Longrightarrow> rte_zmalloc h =
    (Some (next_addr h), h\<lparr>next_addr := Suc (next_addr h), live := insert (next_addr h) (live h)\<rparr>)"
  by (simp add: rte_zmalloc_def Let_def)

lemma growsI:
  assumes "table_ok t h" and "block_at t sl = None" and "valid_slot sl"
    and "block_at t' = (block_at t)(sl \<mapsto> next_addr h)"
    and "nat_lookup_ip t' = nat_lookup_ip t"
  shows "grows t h t' (h\<lparr>next_addr := Suc (next_addr h), live := insert (next_addr h) (live h)\<rparr>)"
  using table_ok_extend [OF assms(1-4) refl] assms(5) by (simp add: grows_def)

lemma ensure_first_grows:
  assumes "table_ok t h" and "\<And>n. alloc_ok h n"
  shows "\<exists>t' h'. ensure_first t h = (Some t', h') \<and> grows t h (Some t') h'"
proof (cases t)
  case None
  let ?t' = "\<lparr>first_addr = next_addr h, first_ent = (\<lambda>_. None)\<rparr>"
  have "block_at (Some ?t') = (block_at t)(Root \<mapsto> next_addr h)"
  proof
    fix sl show "block_at (Some ?t') sl = ((block_at t)(Root \<mapsto> next_addr h)) sl"
      using None by (cases sl) simp_all
  qed
  moreover have "nat_lookup_ip (Some ?t') = nat_lookup_ip t"
    using None by (simp add: nat_lookup_ip_def fun_eq_iff)
  ultimately show ?thesis
    using None assms growsI [of t h Root "Some ?t'"]
    by (auto simp: ensure_first_def rte_zmalloc_ok)
next
  case (Some t')
  then show ?thesis using assms by (simp add: ensure_first_def grows_def)
qed

lemma ensure_second_grows:
  assumes "table_ok (Some t) h" and "\<And>n. alloc_ok h n"
  shows "\<exists>s h'. ensure_second t key h = (Some s, h') \<and>
    grows (Some t) h (Some (t\<lparr>first_ent := (first_ent t)(fstb key \<mapsto> s)\<rparr>)) h'"
proof (cases "first_ent t (fstb key)")
  case None
  let ?s = "\<lparr>second_addr = next_addr h, second_ent = (\<lambda>_. None)\<rparr>"
  let ?t' = "t\<lparr>first_ent := (first_ent t)(fstb key \<mapsto> ?s)\<rparr>"
  have "block_at (Some ?t') = (block_at (Some t))(Row (fstb key) \<mapsto> next_addr h)"
  proof
    fix sl show "block_at (Some ?t') sl = ((block_at (Some t))(Row (fstb key) \<mapsto> next_addr h)) sl"
      using None by (cases sl) simp_all
  qed
  moreover have "nat_lookup_ip (Some ?t') = nat_lookup_ip (Some t)"
    using None by (auto simp: nat_lookup_ip_def fun_eq_iff)
  ultimately show ?thesis
    using None assms growsI [of "Some t" h "Row (fstb key)" "Some ?t'"] key_index_bounds
    by (auto simp: ensure_second_def rte_zmalloc_ok)
next
  case (Some s)
  then show ?thesis using assms by (simp add: ensure_second_def grows_def fun_upd_idem)
qed

lemma ensure_leaf_grows:
  assumes "table_ok (Some t) h" and "\<And>n. alloc_ok h n" and "first_ent t (fstb key) = Some s"
  shows "\<exists>l h'. ensure_leaf s key h = (Some l, h') \<and>
    grows (Some t) h (Some (t\<lparr>first_ent := (first_ent t)(fstb key \<mapsto>
      s\<lparr>second_ent := (second_ent s)(sndb key \<mapsto> l)\<rparr>)\<rparr>)) h'"
proof (cases "second_ent s (sndb key)")
  case None
  let ?l = "\<lparr>leaf_addr = next_addr h, leaf_ent = (\<lambda>_. 0)\<rparr>"
  let ?t' = "t\<lparr>first_ent := (first_ent t)(fstb key \<mapsto>
      s\<lparr>second_ent := (second_ent s)(sndb key \<mapsto> ?l)\<rparr>)\<rparr>"
  let ?sl = "Leaf (fstb key) (sndb key)"
  have "block_at (Some ?t') = (block_at (Some t))(?sl \<mapsto> next_addr h)"
  proof
    fix sl show "block_at (Some ?t') sl = ((block_at (Some t))(?sl \<mapsto> next_addr h)) sl"
      using None assms(3) by (cases sl) simp_all
  qed
  moreover have "nat_lookup_ip (Some ?t') = nat_lookup_ip (Some t)"
    using None assms(3) by (auto simp: nat_lookup_ip_def fun_eq_iff)
  ultimately show ?thesis
    using None assms growsI [of "Some t" h ?sl "Some ?t'"] key_index_bounds
    by (auto simp: ensure_leaf_def rte_zmalloc_ok)
next
  case (Some l)
  then show ?thesis using assms by (simp add: ensure_leaf_def grows_def fun_upd_idem)
qed

text \<open>Writing an entry of a leaf that is there changes no block and one lookup.\<close>

lemma write_entry:
  fixes t :: first_table and s :: second_table and l :: leaf_table and v :: u32
  assumes "first_ent t (fstb key) = Some s" and "second_ent s (sndb key) = Some l"
  defines "t' \<equiv> t\<lparr>first_ent := (first_ent t)(fstb key \<mapsto> s\<lparr>second_ent := (second_ent s)(sndb key \<mapsto>
      l\<lparr>leaf_ent := (leaf_ent l)(l2b key := v)\<rparr>)\<rparr>)\<rparr>"
  shows "block_at (Some t') = block_at (Some t)"
    and "nat_lookup_ip (Some t') = (nat_lookup_ip (Some t))(key := if v = 0 then None else Some v)"
proof -
  show "block_at (Some t') = block_at (Some t)"
  proof
    fix sl show "block_at (Some t') sl = block_at (Some t) sl"
      using assms(1,2) by (cases sl) (simp_all add: t'_def)
  qed
  show "nat_lookup_ip (Some t') = (nat_lookup_ip (Some t))(key := if v = 0 then None else Some v)"
  proof
    fix ip
    show "nat_lookup_ip (Some t') ip =
        ((nat_lookup_ip (Some t))(key := if v = 0 then None else Some v)) ip"
    proof (cases "ip = key")
      case True
      then show ?thesis by (simp add: nat_lookup_ip_def t'_def)
    next
      case False
      then show ?thesis
        using assms(1,2) key_index_inject [of ip key] by (auto simp: nat_lookup_ip_def t'_def)
    qed
  qed
qed

lemma add_rule_to_table_ok:
  assumes "table_ok t h" and "\<And>n. alloc_ok h n"
  shows "\<exists>t' h'. add_rule_to_table t key v h = Some (Some t', h') \<and>
    table_ok (Some t') h' \<and> alloc_ok h' = alloc_ok h \<and>
    live h' - ran (block_at (Some t')) = live h - ran (block_at t) \<and>
    nat_lookup_ip (Some t') = (nat_lookup_ip t)(key := if v = 0 then None else Some v)"
proof -
  obtain t1 h1 where 1: "ensure_first t h = (Some t1, h1)" "grows t h (Some t1) h1"
    using ensure_first_grows [OF assms] by blast
  then have t1: "table_ok (Some t1) h1" and a1: "\<And>n. alloc_ok h1 n"
    using assms(2) by (simp_all add: grows_def)
  obtain s h2 where 2: "ensure_second t1 key h1 = (Some s, h2)"
    "grows (Some t1) h1 (Some (t1\<lparr>first_ent := (first_ent t1)(fstb key \<mapsto> s)\<rparr>)) h2"
    using ensure_second_grows [OF t1 a1] by blast
  define t2 where "t2 = t1\<lparr>first_ent := (first_ent t1)(fstb key \<mapsto> s)\<rparr>"
  have t2: "table_ok (Some t2) h2" "first_ent t2 (fstb key) = Some s" and a2: "\<And>n. alloc_ok h2 n"
    using 2 a1 by (simp_all add: grows_def t2_def)
  obtain l h3 where 3: "ensure_leaf s key h2 = (Some l, h3)"
    "grows (Some t2) h2 (Some (t2\<lparr>first_ent := (first_ent t2)(fstb key \<mapsto>
      s\<lparr>second_ent := (second_ent s)(sndb key \<mapsto> l)\<rparr>)\<rparr>)) h3"
    using ensure_leaf_grows [OF t2(1) a2 t2(2)] by blast
  define s3 where "s3 = s\<lparr>second_ent := (second_ent s)(sndb key \<mapsto> l)\<rparr>"
  define t3 where "t3 = t2\<lparr>first_ent := (first_ent t2)(fstb key \<mapsto> s3)\<rparr>"
  have "first_ent t3 (fstb key) = Some s3" "second_ent s3 (sndb key) = Some l"
    by (simp_all add: t3_def s3_def)
  note w = write_entry [OF this, of v]
  have "add_rule_to_table t key v h = Some (Some (t3\<lparr>first_ent := (first_ent t3)(fstb key \<mapsto>
      s3\<lparr>second_ent := (second_ent s3)(sndb key \<mapsto> l\<lparr>leaf_ent := (leaf_ent l)(l2b key := v)\<rparr>)\<rparr>)\<rparr>), h3)"
    using 1(1) 2(1) 3(1) by (simp add: add_rule_to_table_def t3_def s3_def t2_def)
  moreover have "grows t h (Some t3) h3"
    using 1(2) 2(2) 3(2) by (simp add: grows_def t3_def s3_def t2_def)
  ultimately show ?thesis
    using w by (auto simp: grows_def table_ok_def)
qed

section \<open>Iteration visits every entry once\<close>

lemma IPv4_bits:
  "bit (IPv4 i j c d) n \<longleftrightarrow>
    (if n < 8 then bit d n else if n < 16 then bit c (n - 8)
     else if n < 24 then bit j (n - 16) else n < 32 \<and> bit i (n - 24))"
proof -
  consider "n < 8" | "8 \<le> n" "n < 16" | "16 \<le> n" "n < 24" | "24 \<le> n" "n < 32" | "32 \<le> n"
    by linarith
  then show ?thesis
    by cases (auto simp: IPv4_def mask_literals bit_simps less_diff_conv2 dest: bit_imp_le_length)
qed

lemma index_IPv4:
  assumes "i < lkp_fs" and "j < lkp_ss" and "k < lkp_ts"
  shows "fstb (IPv4 i j (k div 256 mod 256) (k mod 256)) = i"
    and "sndb (IPv4 i j (k div 256 mod 256) (k mod 256)) = j"
    and "l2b (IPv4 i j (k div 256 mod 256) (k mod 256)) = k"
proof -
  let ?ip = "IPv4 i j (k div 256 mod 256) (k mod 256)"
  have small: "unat (take_bit m (word_of_nat x :: u32)) = x" if "x < 2 ^ m" "m \<le> 32" for m x
  proof -
    have "x < 2 ^ 32" using that by (meson less_le_trans one_le_numeral power_increasing)
    then show ?thesis
      using that by (simp add: unsigned_take_bit_eq unat_of_nat take_bit_nat_def)
  qed
  have "drop_bit 24 ?ip AND 0xff = take_bit 8 (word_of_nat i)"
    by (rule bit_word_eqI) (auto simp: mask_literals bit_simps IPv4_bits)
  then show "fstb ?ip = i" using assms(1) by (simp add: fstb_def small lkp_fs_def)
  have "drop_bit 16 ?ip AND 0xff = take_bit 8 (word_of_nat j)"
    by (rule bit_word_eqI) (auto simp: mask_literals bit_simps IPv4_bits)
  then show "sndb ?ip = j" using assms(2) by (simp add: sndb_def small lkp_ss_def)
  have "k div 256 mod 256 = take_bit 8 (drop_bit 8 k)" "k mod 256 = take_bit 8 k"
    by (simp_all add: take_bit_nat_def drop_bit_nat_def)
  then have b: "bit (k div 256 mod 256) n \<longleftrightarrow> n < 8 \<and> bit k (8 + n)"
      "bit (k mod 256) n \<longleftrightarrow> n < 8 \<and> bit k n" for n
    by (simp_all only: bit_simps o_apply)
  have "(?ip AND 0xff00) OR (?ip AND 0xff) = take_bit 16 (word_of_nat k)"
    by (rule bit_word_eqI) (auto simp: mask_literals bit_simps IPv4_bits b)
  then show "l2b ?ip = k" using assms(3) by (simp add: l2b_def small lkp_ts_def)
qed

text \<open>The addresses in the order in which the loops visit them.\<close>

definition row_keys :: "nat \<Rightarrow> nat \<Rightarrow> u32 list" where
  "row_keys i j = map (\<lambda>k. IPv4 i j (k div 256 mod 256) (k mod 256)) [0..<lkp_ts]"

definition all_keys :: "u32 list" where
  "all_keys = concat (map (\<lambda>i. concat (map (row_keys i) [0..<lkp_ss])) [0..<lkp_fs])"

definition entries_of :: "nat_lookup \<Rightarrow> u32 list \<Rightarrow> (u32 \<times> u32) list" where
  "entries_of t ips = List.map_filter (\<lambda>ip. map_option (Pair ip) (nat_lookup_ip t ip)) ips"

definition run_entries ::
  "(u32 \<Rightarrow> u32 \<Rightarrow> 's \<Rightarrow> 's) option \<Rightarrow> (u32 \<times> u32) list \<Rightarrow> nat \<times> 's \<Rightarrow> nat \<times> 's" where
  "run_entries func es ns = (fst ns + length es,
     case func of None \<Rightarrow> snd ns | Some f \<Rightarrow> fold (\<lambda>(a, b). f a b) es (snd ns))"

lemma run_entries_simps [simp]:
  "run_entries func [] ns = ns"
  "run_entries func (es @ fs) ns = run_entries func fs (run_entries func es ns)"
  by (simp_all add: run_entries_def split: option.split)

lemma entries_of_append [simp]: "entries_of t (a @ b) = entries_of t a @ entries_of t b"
  by (simp add: entries_of_def List.map_filter_def)

lemma entries_of_Nil [simp]: "entries_of t [] = []"
  by (simp add: entries_of_def List.map_filter_simps)

lemma entries_of_none: "(\<And>ip. ip \<in> set ips \<Longrightarrow> nat_lookup_ip t ip = None) \<Longrightarrow> entries_of t ips = []"
  by (induction ips) (simp_all add: entries_of_def List.map_filter_simps)

lemma nat_lookup_IPv4:
  assumes "i < lkp_fs" and "j < lkp_ss" and "k < lkp_ts"
  shows "nat_lookup_ip (Some t) (IPv4 i j (k div 256 mod 256) (k mod 256)) =
    (case first_ent t i of None \<Rightarrow> None | Some s \<Rightarrow> (case second_ent s j of None \<Rightarrow> None
     | Some l \<Rightarrow> if leaf_ent l k = 0 then None else Some (leaf_ent l k)))"
  by (simp add: nat_lookup_ip_def index_IPv4 [OF assms] split: option.split)

lemma iter_leaf_entries:
  assumes "i < lkp_fs" and "j < lkp_ss" and "set ks \<subseteq> {..<lkp_ts}"
    and "first_ent t i = Some s" and "second_ent s j = Some l"
  shows "iter_leaf func i j l ks ns =
    run_entries func (entries_of (Some t) (map (\<lambda>k. IPv4 i j (k div 256 mod 256) (k mod 256)) ks)) ns"
  using assms(3)
proof (induction ks arbitrary: ns)
  case Nil
  then show ?case by (cases ns) simp
next
  case (Cons k ks)
  then show ?case
    using nat_lookup_IPv4 [of i j k t] assms
    by (cases ns) (auto simp: entries_of_def List.map_filter_simps run_entries_def split: option.splits)
qed

lemma row_keys_lookup_None:
  assumes "i < lkp_fs" and "j < lkp_ss"
    and "first_ent t i = None \<or> (\<exists>s. first_ent t i = Some s \<and> second_ent s j = None)"
  shows "entries_of (Some t) (row_keys i j) = []"
  using assms by (auto intro!: entries_of_none simp: row_keys_def nat_lookup_IPv4)

lemma iter_second_entries:
  assumes "i < lkp_fs" and "set js \<subseteq> {..<lkp_ss}" and "first_ent t i = Some s"
  shows "iter_second func i s js ns =
    run_entries func (entries_of (Some t) (concat (map (row_keys i) js))) ns"
  using assms(2)
proof (induction js arbitrary: ns)
  case Nil
  then show ?case by simp
next
  case (Cons j js)
  show ?case
  proof (cases "second_ent s j")
    case None
    then show ?thesis using Cons assms row_keys_lookup_None [of i j t] by simp
  next
    case (Some l)
    then show ?thesis
      using Cons assms iter_leaf_entries [of i j "[0..<lkp_ts]" t s l func ns]
      by (simp add: row_keys_def atLeast0LessThan)
  qed
qed

lemma entries_of_concat: "entries_of t (concat xss) = concat (map (entries_of t) xss)"
  by (induction xss) simp_all

lemma iter_first_entries:
  assumes "set rs \<subseteq> {..<lkp_fs}"
  shows "iter_first func t rs ns =
    run_entries func (entries_of (Some t)
      (concat (map (\<lambda>i. concat (map (row_keys i) [0..<lkp_ss])) rs))) ns"
  using assms
proof (induction rs arbitrary: ns)
  case Nil
  then show ?case by simp
next
  case (Cons i rs)
  show ?case
  proof (cases "first_ent t i")
    case None
    then have "entries_of (Some t) (concat (map (row_keys i) [0..<lkp_ss])) = []"
      using Cons.prems row_keys_lookup_None [of i _ t] by (simp add: entries_of_concat)
    then show ?thesis using Cons None by simp
  next
    case (Some s)
    then show ?thesis
      using Cons iter_second_entries [of i "[0..<lkp_ss]" t s func ns]
      by (simp add: atLeast0LessThan)
  qed
qed

lemma nat_iter_entries:
  "nat_iter t func s =
    (let (n, s) = run_entries func (entries_of t all_keys) (0, s) in (n div 2, s))"
proof (cases t)
  case None
  then have "entries_of t all_keys = []"
    by (intro entries_of_none) (simp add: nat_lookup_ip_def)
  with None show ?thesis by (simp add: nat_iter_def)
next
  case (Some t')
  then show ?thesis
    using iter_first_entries [of "[0..<lkp_fs]" func t' "(0, s)"]
    by (simp add: nat_iter_def all_keys_def atLeast0LessThan)
qed

lemma set_all_keys: "set all_keys = UNIV"
proof -
  have "ip \<in> set all_keys" for ip
  proof -
    have "ip \<in> set (row_keys (fstb ip) (sndb ip))"
      using IPv4_index [of ip] key_index_bounds(3) [of ip] by (force simp: row_keys_def)
    then show ?thesis
      using key_index_bounds [of ip]
      by (simp add: all_keys_def Bex_def) blast
  qed
  then show ?thesis by blast
qed

lemma row_keys_index:
  "i < lkp_fs \<Longrightarrow> j < lkp_ss \<Longrightarrow> ip \<in> set (row_keys i j) \<Longrightarrow> fstb ip = i \<and> sndb ip = j"
  by (auto simp: row_keys_def index_IPv4)

lemma distinct_concat_index:
  assumes "distinct ks" and "\<And>k. k \<in> set ks \<Longrightarrow> distinct (f k)"
    and "\<And>k x. k \<in> set ks \<Longrightarrow> x \<in> set (f k) \<Longrightarrow> g x = k"
  shows "distinct (concat (map f ks))"
  using assms
proof (induction ks)
  case Nil
  then show ?case by simp
next
  case (Cons k ks)
  have "g x = k" if "x \<in> set (f k)" for x using that Cons.prems(3) by simp
  moreover have "g x \<noteq> k" if "x \<in> set (concat (map f ks))" for x
  proof -
    from that obtain k' where "k' \<in> set ks" "x \<in> set (f k')" by auto
    then show ?thesis using Cons.prems(1) Cons.prems(3) [of k' x] by auto
  qed
  ultimately have "set (f k) \<inter> set (concat (map f ks)) = {}" by blast
  moreover have "distinct (concat (map f ks))"
    using Cons.prems by (intro Cons.IH) simp_all
  ultimately show ?case using Cons.prems(2) by simp
qed

lemma distinct_row_keys:
  assumes "i < lkp_fs" and "j < lkp_ss"
  shows "distinct (row_keys i j)"
  unfolding row_keys_def distinct_map
  by (auto intro!: inj_on_inverseI [of _ l2b] simp: index_IPv4 [OF assms])

lemma distinct_all_keys: "distinct all_keys"
  unfolding all_keys_def
proof (rule distinct_concat_index [of _ _ fstb])
  fix i assume i: "i \<in> set [0..<lkp_fs]"
  then show "distinct (concat (map (row_keys i) [0..<lkp_ss]))"
    by (intro distinct_concat_index [of _ _ sndb]) (auto simp: distinct_row_keys row_keys_index)
  show "fstb ip = i" if "ip \<in> set (concat (map (row_keys i) [0..<lkp_ss]))" for ip
    using that i by (auto simp: row_keys_index)
qed simp

lemma length_entries_of:
  "distinct ips \<Longrightarrow> length (entries_of t ips) = card {ip \<in> set ips. nat_lookup_ip t ip \<noteq> None}"
  unfolding entries_of_def List.map_filter_def
  by (simp add: distinct_card [symmetric] o_def)

lemma nat_number_of_rules_card:
  "nat_number_of_rules t = card (dom (nat_lookup_ip t)) div 2"
  by (simp add: nat_number_of_rules_def nat_iter_entries run_entries_def
      length_entries_of [OF distinct_all_keys] set_all_keys dom_def)

section \<open>Freeing a table frees each of its blocks once\<close>

fun free_ptrs :: "nat option list \<Rightarrow> heap \<Rightarrow> heap option" where
  "free_ptrs [] h = Some h"
| "free_ptrs (p # ps) h = do { h \<leftarrow> rte_free_ptr p h; free_ptrs ps h }"

fun somes :: "'a option list \<Rightarrow> 'a list" where
  "somes [] = []"
| "somes (None # ps) = somes ps"
| "somes (Some a # ps) = a # somes ps"

lemma somes_map: "somes (map f xs) = map (the \<circ> f) (filter (\<lambda>x. f x \<noteq> None) xs)"
proof (induction xs)
  case (Cons x xs)
  then show ?case by (cases "f x") simp_all
qed simp

lemma free_ptrs_append: "free_ptrs (ps @ qs) h = do { h \<leftarrow> free_ptrs ps h; free_ptrs qs h }"
  by (induction ps arbitrary: h) (auto split: Option.bind_split)

lemma free_ptrs_distinct:
  assumes "distinct (somes ps)" and "set (somes ps) \<subseteq> live h"
  shows "free_ptrs ps h = Some (h\<lparr>live := live h - set (somes ps)\<rparr>)"
  using assms
proof (induction ps arbitrary: h)
  case Nil
  then show ?case by (simp add:)
next
  case (Cons p ps)
  show ?case
  proof (cases p)
    case None
    with Cons show ?thesis by (simp add: rte_free_ptr_def)
  next
    case (Some a)
    let ?h = "h\<lparr>live := live h - {a}\<rparr>"
    have "free_ptrs ps ?h = Some (?h\<lparr>live := live ?h - set (somes ps)\<rparr>)"
      using Cons.prems Some by (intro Cons.IH) auto
    moreover have "live h - {a} - set (somes ps) = live h - insert a (set (somes ps))"
      by blast
    ultimately show ?thesis
      using Cons.prems Some by (simp add: rte_free_ptr_def rte_free_def)
  qed
qed

definition slots_in_order :: "slot list" where
  "slots_in_order =
    concat (map (\<lambda>i. map (Leaf i) [0..<lkp_ss] @ [Row i]) [0..<lkp_fs]) @ [Root]"

lemma slots_in_order: "distinct slots_in_order" "set slots_in_order = Collect valid_slot"
proof -
  have "distinct (concat (map (\<lambda>i. map (Leaf i) [0..<lkp_ss] @ [Row i]) [0..<lkp_fs]))"
    by (rule distinct_concat_index [where g = "\<lambda>sl. case sl of Leaf i _ \<Rightarrow> i | Row i \<Rightarrow> i | Root \<Rightarrow> 0"])
      (auto simp: distinct_map inj_on_def)
  then show "distinct slots_in_order"
    by (auto simp: slots_in_order_def)
  have "sl \<in> set slots_in_order \<longleftrightarrow> valid_slot sl" for sl
    by (cases sl) (auto simp: slots_in_order_def Bex_def)
  then show "set slots_in_order = Collect valid_slot" by blast
qed

lemma free_leaves_ptrs:
  "free_leaves s js h = free_ptrs (map (\<lambda>j. map_option leaf_addr (second_ent s j)) js) h"
  by (induction js arbitrary: h) (auto split: Option.bind_split)

lemma free_ptrs_null: "free_ptrs (map (\<lambda>_. None) xs) h = Some h"
  by (induction xs) (simp_all add: rte_free_ptr_def)

lemma free_rows_ptrs:
  "free_rows t rs h = free_ptrs (map (block_at (Some t))
     (concat (map (\<lambda>i. map (Leaf i) [0..<lkp_ss] @ [Row i]) rs))) h"
proof (induction rs arbitrary: h)
  case Nil
  then show ?case by simp
next
  case (Cons i rs)
  show ?case
  proof (cases "first_ent t i")
    case None
    then have "map (block_at (Some t)) (map (Leaf i) [0..<lkp_ss]) = map (\<lambda>_. None) [0..<lkp_ss]"
      by simp
    with None Cons show ?thesis
      by (simp add: free_ptrs_append free_ptrs_null rte_free_ptr_def del: map_map)
  next
    case (Some s)
    with Cons show ?thesis
      by (auto simp: free_ptrs_append free_leaves_ptrs o_def rte_free_ptr_def split: Option.bind_split)
  qed
qed

lemma nat_reset_ptrs:
  "nat_reset_lookup_table t h = free_ptrs (map (block_at t) slots_in_order) h"
  by (cases t) (auto simp: nat_reset_lookup_table_def free_ptrs_null free_rows_ptrs
      slots_in_order_def free_ptrs_append rte_free_ptr_def split: Option.bind_split)

lemma nat_reset_ok:
  assumes "table_ok t h"
  shows "nat_reset_lookup_table t h = Some (h\<lparr>live := live h - ran (block_at t)\<rparr>)"
proof -
  let ?ps = "map (block_at t) slots_in_order"
  have f: "somes ?ps = map (the \<circ> block_at t) (filter (\<lambda>sl. block_at t sl \<noteq> None) slots_in_order)"
    by (rule somes_map)
  have s: "set (filter (\<lambda>sl. block_at t sl \<noteq> None) slots_in_order) = dom (block_at t)"
    using assms slots_in_order(2) by (auto simp: table_ok_def)
  have "inj_on (the \<circ> block_at t) (dom (block_at t))"
    using assms by (auto simp: table_ok_def inj_on_def dom_def)
  then have "distinct (somes ?ps)"
    using slots_in_order(1) s unfolding f distinct_map by simp
  moreover have "set (somes ?ps) = ran (block_at t)"
    unfolding f using s by (force simp: ran_def dom_def)
  ultimately show ?thesis
    using free_ptrs_distinct [of ?ps h] assms by (simp add: nat_reset_ptrs table_ok_def)
qed

end
