(* ===== verification/Checksum.thy ===== *)
theory Checksum
  imports Natasha_Prelude
begin

text \<open>
  The Internet checksum: \<open>cksum_update\<close> of \<open>src/src/network_headers.h\<close>, the
  incremental update of RFC 1624, against the abstract checksum of RFC 1071.

  The abstract side is \<open>inet_cksum\<close>, the complement of the one's complement sum
  of 16-bit words.  The lemmas show that the update equals a full recomputation, that
  it never yields the second representation of zero, and how a sum over a buffer
  changes when a word of the buffer is overwritten, which is what the NAT rewriting
  rests on.
\<close>

section \<open>The incremental update\<close>

definition cksum_update :: "u16 \<Rightarrow> u32 \<Rightarrow> u32 \<Rightarrow> u16" where
  "cksum_update csum from to =
    (let csum_c = NOT (ucast csum :: u32);
         from_c = NOT from;
         res = csum_c + from_c;
         ret = res + (if res < from_c then 1 else 0);
         res2 = ret + to;
         ret2 = res2 + (if res2 < to then 1 else 0);
         sum = ret2;
         sum = (sum AND 0xffff) + drop_bit 16 sum;
         sum = (sum AND 0xffff) + drop_bit 16 sum
     in ucast (NOT sum))"

section \<open>The checksum of RFC 1071\<close>

text \<open>One's complement addition: the carry out of bit 15 is added back at bit 0.\<close>

definition oc_add :: "u16 \<Rightarrow> u16 \<Rightarrow> u16" where
  "oc_add a b = (let s = a + b in if s < b then s + 1 else s)"

definition oc_sum :: "u16 list \<Rightarrow> u16" where
  "oc_sum ws = foldr oc_add ws 0"

definition inet_cksum :: "u16 list \<Rightarrow> u16" where
  "inet_cksum ws = NOT (oc_sum ws)"

text \<open>The 16-bit words of a buffer; an odd last byte is padded with a zero byte.\<close>

fun words16 :: "bytes \<Rightarrow> u16 list" where
  "words16 (a # b # r) = le16 a b # words16 r"
| "words16 [a] = [le16 a 0]"
| "words16 [] = []"

text \<open>A receiver accepts a region that carries its own checksum if its words sum to minus zero.\<close>

definition cksum_ok :: "bytes \<Rightarrow> bool" where
  "cksum_ok b \<longleftrightarrow> oc_sum (words16 b) = 0xffff"

text \<open>The same sum over the naturals, without the end-around carries.\<close>

definition wsum :: "bytes \<Rightarrow> nat" where
  "wsum b = sum_list (map unat (words16 b))"

text \<open>The representative of a natural modulo 65535 that a one's complement sum yields.\<close>

definition oc_rep :: "nat \<Rightarrow> nat" where
  "oc_rep n = (if n = 0 then 0 else Suc ((n - 1) mod 65535))"

section \<open>One's complement arithmetic\<close>

lemma unat_not: "unat (NOT w :: 'a::len word) = 2 ^ LENGTH('a) - 1 - unat w"
proof -
  have "NOT w = - 1 - w" by (simp add: not_eq_complement)
  then show ?thesis by (simp add: unat_sub unsigned_minus_1_eq_mask mask_eq_exp_minus_1)
qed

lemma oc_rep_bound: "oc_rep n \<le> 65535"
proof -
  have "(n - 1) mod 65535 < 65535" by simp
  then show ?thesis by (simp add: oc_rep_def Suc_le_eq)
qed

lemma oc_rep_mod: "oc_rep n mod 65535 = n mod 65535"
  by (cases n) (simp_all add: oc_rep_def mod_Suc_eq)

lemma oc_rep_eq_0 [simp]: "oc_rep n = 0 \<longleftrightarrow> n = 0"
  by (simp add: oc_rep_def)

lemma oc_rep_unique:
  assumes "x \<le> 65535" and "x mod 65535 = n mod 65535" and "x = 0 \<longleftrightarrow> n = 0"
  shows "x = oc_rep n"
proof -
  have "x mod 65535 = oc_rep n mod 65535" and "x = 0 \<longleftrightarrow> oc_rep n = 0"
    using assms oc_rep_mod by simp_all
  moreover have "y mod 65535 = (if y = 65535 then 0 else y)" if "y \<le> 65535" for y :: nat
    using that by (auto simp: le_less)
  ultimately show ?thesis
    using assms(1) oc_rep_bound [of n] by (metis zero_neq_numeral)
qed

lemma oc_rep_full: "oc_rep n = 65535 \<longleftrightarrow> n \<noteq> 0 \<and> n mod 65535 = 0"
proof
  assume "oc_rep n = 65535"
  then show "n \<noteq> 0 \<and> n mod 65535 = 0"
    using oc_rep_mod [of n] by (metis mod_self oc_rep_eq_0 zero_neq_numeral)
next
  assume "n \<noteq> 0 \<and> n mod 65535 = 0"
  then show "oc_rep n = 65535"
    using oc_rep_unique [of 65535 n] by simp
qed

lemma oc_rep_cong: "m mod 65535 = n mod 65535 \<Longrightarrow> m = 0 \<longleftrightarrow> n = 0 \<Longrightarrow> oc_rep m = oc_rep n"
  by (metis oc_rep_bound oc_rep_eq_0 oc_rep_mod oc_rep_unique)

text \<open>Addition with an end-around carry, at any width.\<close>

lemma end_around_carry:
  fixes a b :: "'a::len word"
  defines "N \<equiv> 2 ^ LENGTH('a) :: nat"
  shows "unat (a + b + (if a + b < b then 1 else 0)) =
    (if unat a + unat b < N then unat a + unat b else unat a + unat b + 1 - N)"
proof -
  have a: "unat a < N" and b: "unat b < N"
    unfolding N_def by (rule unsigned_less)+
  have s: "unat (a + b) = (unat a + unat b) mod N"
    by (simp add: unat_word_ariths N_def)
  have N: "2 ^ LENGTH('a) = N" by (simp add: N_def)
  show ?thesis
  proof (cases "unat a + unat b < N")
    case True
    then have "unat (a + b) = unat a + unat b" using s by simp
    moreover have "\<not> a + b < b" using True s by (simp add: word_less_nat_alt)
    ultimately show ?thesis using True by simp
  next
    case False
    then have e: "unat (a + b) = unat a + unat b - N"
      using s a b by (simp add: le_mod_geq)
    then have "a + b < b" using a False by (simp add: word_less_nat_alt)
    moreover have "unat (a + b + 1) = unat a + unat b + 1 - N"
      using e a b False by (simp add: unat_word_ariths N)
    ultimately show ?thesis using False by simp
  qed
qed

lemma unat_oc_add: "unat (oc_add a b) = oc_rep (unat a + unat b)"
proof (rule oc_rep_unique)
  have e: "unat (oc_add a b) = (if unat a + unat b < 65536 then unat a + unat b
      else unat a + unat b + 1 - 65536)"
    using end_around_carry [of a b] by (simp add: oc_add_def Let_def split: if_splits)
  have "unat a < 65536" "unat b < 65536" by (rule unat_bounds)+
  with e show "unat (oc_add a b) \<le> 65535" by (simp split: if_splits)
  show "unat (oc_add a b) mod 65535 = (unat a + unat b) mod 65535"
  proof (cases "unat a + unat b < 65536")
    case False
    then have "unat a + unat b = unat (oc_add a b) + 65535" using e by simp
    then show ?thesis by simp
  qed (use e in simp)
  show "unat (oc_add a b) = 0 \<longleftrightarrow> unat a + unat b = 0"
    using e by (cases "unat a + unat b < 65536") auto
qed

lemma oc_rep_absorb: "oc_rep (m + oc_rep n) = oc_rep (m + n)"
  by (rule oc_rep_cong) (auto simp: mod_add_right_eq [symmetric, of _ "oc_rep n"]
      mod_add_right_eq oc_rep_mod)

lemma unat_oc_sum: "unat (oc_sum ws) = oc_rep (sum_list (map unat ws))"
proof (induction ws)
  case Nil
  then show ?case by (simp add: oc_sum_def)
next
  case (Cons w ws)
  then show ?case by (simp add: oc_sum_def unat_oc_add oc_rep_absorb)
qed

lemma sum_list_unat_eq_0: "sum_list (map unat ws) = 0 \<longleftrightarrow> (\<forall>w \<in> set ws. w = 0)"
  by (induction ws) (auto simp: unat_eq_0)

lemma inet_cksum_eq: "unat (inet_cksum ws) = 65535 - oc_rep (sum_list (map unat ws))"
  by (simp add: inet_cksum_def unat_not unat_oc_sum)

section \<open>Correctness of the incremental update\<close>

lemma unat_fold16:
  fixes s :: u32
  shows "unat ((s AND 0xffff) + drop_bit 16 s) = unat s mod 65536 + unat s div 65536"
proof -
  have m: "s AND 0xffff = take_bit 16 s"
    by (simp add: take_bit_eq_mask mask_eq_exp_minus_1)
  have l: "unat (take_bit 16 s) = unat s mod 65536"
    by (simp only: unsigned_take_bit_eq take_bit_nat_def) simp
  have h: "unat (drop_bit 16 s) = unat s div 65536"
    by (simp only: unat_drop_bit_eq drop_bit_nat_def) simp
  have "unat s div 65536 < 65536" using unat_bounds(3) [of s] by (simp add: div_less_iff_less_mult)
  moreover have "unat s mod 65536 < 65536" by simp
  ultimately show ?thesis
    by (simp add: m l h unat_word_ariths)
qed

lemma fold16_mod: "(n mod 65536 + n div 65536) mod 65535 = n mod (65535::nat)"
proof -
  have "n = 65535 * (n div 65536) + (n mod 65536 + n div 65536)"
    using div_mult_mod_eq [of n 65536] by simp
  then show ?thesis by (metis mod_mult_self4 add.commute)
qed

lemma fold16_eq_0: "n mod 65536 + n div 65536 = 0 \<longleftrightarrow> n = (0::nat)"
  using div_mult_mod_eq [of n 65536] by auto

text \<open>The value of the sum just before its final complement.\<close>

lemma cksum_update_sum:
  fixes s :: u32
  defines "t \<equiv> (s AND 0xffff) + drop_bit 16 s"
  defines "u \<equiv> (t AND 0xffff) + drop_bit 16 t"
  shows "unat u = oc_rep (unat s)"
proof (rule oc_rep_unique)
  have t: "unat t = unat s mod 65536 + unat s div 65536"
    and u: "unat u = unat t mod 65536 + unat t div 65536"
    by (simp_all add: t_def u_def unat_fold16)
  have "unat s div 65536 < 65536"
    using unat_bounds(3) [of s] by (simp add: div_less_iff_less_mult)
  then have "unat t \<le> 131070"
    using t mod_less_divisor [of 65536 "unat s"] by linarith
  then have "unat t div 65536 \<le> 1" and "unat t div 65536 = 1 \<Longrightarrow> unat t mod 65536 \<le> 65534"
    using div_mult_mod_eq [of "unat t" 65536] by linarith+
  moreover have "unat t mod 65536 \<le> 65535"
    using mod_less_divisor [of 65536 "unat t"] by linarith
  ultimately show "unat u \<le> 65535" using u by linarith
  show "unat u mod 65535 = unat s mod 65535"
    using t u fold16_mod by metis
  show "unat u = 0 \<longleftrightarrow> unat s = 0"
    using t u fold16_eq_0 by metis
qed

lemma end_around_carry_32:
  fixes a b :: u32
  shows "unat (a + b + (if a + b < b then 1 else 0)) mod 65535 = (unat a + unat b) mod 65535"
    and "a + b + (if a + b < b then 1 else 0) = 0 \<longleftrightarrow> a = 0 \<and> b = 0"
proof -
  let ?s = "a + b + (if a + b < b then 1 else 0)"
  have e: "unat ?s = (if unat a + unat b < 4294967296 then unat a + unat b
      else unat a + unat b + 1 - 4294967296)"
    using end_around_carry [of a b] by simp
  show "unat ?s mod 65535 = (unat a + unat b) mod 65535"
  proof (cases "unat a + unat b < 4294967296")
    case True
    with e show ?thesis by simp
  next
    case False
    with e have "unat a + unat b = unat ?s + 65535 * 65537" by simp
    then show ?thesis by (simp only: mod_mult_self2)
  qed
  have "unat ?s = 0 \<longleftrightarrow> unat a = 0 \<and> unat b = 0"
    using e by (cases "unat a + unat b < 4294967296") auto
  then show "?s = 0 \<longleftrightarrow> a = 0 \<and> b = 0"
    by (simp add: unat_eq_0)
qed

lemma unat_ucast_not:
  assumes "unat (u :: u32) \<le> 65535"
  shows "unat (ucast (NOT u) :: u16) = 65535 - unat u"
proof -
  have "unat (NOT u) = 4294967295 - unat u" by (simp add: unat_not)
  then have "unat (ucast (NOT u) :: u16) = (4294967295 - unat u) mod 65536"
    by (simp add: unsigned_ucast_eq take_bit_nat_def)
  also have "4294967295 - unat u = (65535 - unat u) + 65536 * 65535" using assms by simp
  also have "\<dots> mod 65536 = 65535 - unat u" by (simp only: mod_mult_self2) simp
  finally show ?thesis .
qed

text \<open>
  The two facts that determine the updated checksum: its residue, and that it is never
  the representation \<open>0xffff\<close> of zero.
\<close>

lemma cksum_update_props:
  "(unat (cksum_update c f t) + unat t) mod 65535 = (unat c + unat f) mod 65535"
  "cksum_update c f t \<noteq> 0xffff"
proof -
  define cc where "cc = NOT (ucast c :: u32)"
  define ret where "ret = cc + NOT f + (if cc + NOT f < NOT f then 1 else 0)"
  define ret2 where "ret2 = ret + t + (if ret + t < t then 1 else 0)"
  define u where "u = (let s = (ret2 AND 0xffff) + drop_bit 16 ret2 in (s AND 0xffff) + drop_bit 16 s)"
  have upd: "cksum_update c f t = ucast (NOT u)"
    by (simp add: cksum_update_def Let_def cc_def ret_def ret2_def u_def)
  have u: "unat u = oc_rep (unat ret2)"
    using cksum_update_sum [of ret2] by (simp add: u_def Let_def)
  have c: "unat cc = 4294967295 - unat c" and "unat c < 65536"
    by (simp_all add: cc_def unat_not unat_bounds)
  have f: "unat (NOT f) = 4294967295 - unat f" and "unat f \<le> 4294967295"
    using unat_bounds(3) [of f] by (simp_all add: unat_not)
  have "cc \<noteq> 0" using c \<open>unat c < 65536\<close> by (auto simp: unat_eq_0 [symmetric])
  then have "ret \<noteq> 0" using end_around_carry_32(2) [of cc "NOT f"] by (simp add: ret_def)
  then have nz: "ret2 \<noteq> 0" using end_around_carry_32(2) [of ret t] by (simp add: ret2_def)
  have x: "unat (cksum_update c f t) = 65535 - unat u"
    using upd u oc_rep_bound by (simp add: unat_ucast_not)
  show "cksum_update c f t \<noteq> 0xffff"
  proof
    assume "cksum_update c f t = 0xffff"
    then have "unat (cksum_update c f t) = 65535" by simp
    with x oc_rep_bound [of "unat ret2"] u have "oc_rep (unat ret2) = 0" by linarith
    with nz show False by (simp add: unat_eq_0)
  qed
  have "unat ret2 mod 65535 = (unat cc + unat (NOT f) + unat t) mod 65535"
    unfolding ret2_def end_around_carry_32(1)
    by (subst mod_add_left_eq [symmetric]) (simp only: ret_def end_around_carry_32(1) mod_add_left_eq)
  then have r: "unat u mod 65535 = (unat cc + unat (NOT f) + unat t) mod 65535"
    by (simp only: u oc_rep_mod)
  have "unat (cksum_update c f t) + unat u = 65535"
    using x u oc_rep_bound [of "unat ret2"] by simp
  then have "(unat (cksum_update c f t) + (unat cc + unat (NOT f) + unat t)) mod 65535 = 0"
    using r by (metis mod_add_right_eq mod_self)
  then obtain k where "unat (cksum_update c f t) + (unat cc + unat (NOT f) + unat t) = 65535 * k"
    by (auto simp: mod_eq_0_iff_dvd elim: dvdE)
  then have "unat (cksum_update c f t) + unat t + 65535 * 131074 = unat c + unat f + 65535 * k"
    using c f \<open>unat c < 65536\<close> \<open>unat f \<le> 4294967295\<close> by simp
  then show "(unat (cksum_update c f t) + unat t) mod 65535 = (unat c + unat f) mod 65535"
    by (metis mod_mult_self2)
qed

text \<open>The two 16-bit halves of a 32-bit word, as they lie in memory.\<close>

definition halves :: "u32 \<Rightarrow> u16 list" where
  "halves w = words16 [byte_of 0 w, byte_of 1 w, byte_of 2 w, byte_of 3 w]"

lemma halves_mod: "unat w mod 65535 = sum_list (map unat (halves w)) mod 65535"
proof -
  have "unat w = unat (le16 (byte_of 0 w) (byte_of 1 w)) +
      65536 * unat (le16 (byte_of 2 w) (byte_of 3 w))"
    using unat_le32 [of "byte_of 0 w" "byte_of 1 w" "byte_of 2 w" "byte_of 3 w"]
    by (simp add: codec_simps)
  then have "unat w = sum_list (map unat (halves w)) +
      65535 * unat (le16 (byte_of 2 w) (byte_of 3 w))"
    by (simp add: halves_def)
  then show ?thesis by (metis mod_mult_self2)
qed

lemma mod_add_cancel: "(x + k) mod n = (y + k) mod n \<longleftrightarrow> x mod n = y mod (n :: nat)"
  by (auto simp: nat_mod_eq_iff add.commute [of k] add.assoc)

lemma inet_cksum_residue: "(unat (inet_cksum ws) + sum_list (map unat ws)) mod 65535 = 0"
proof -
  have "unat (inet_cksum ws) + oc_rep (sum_list (map unat ws)) = 65535"
    using oc_rep_bound by (simp add: inet_cksum_eq)
  then show ?thesis by (metis mod_add_right_eq mod_self oc_rep_mod)
qed

text \<open>
  C11. The incremental update is exact: from the checksum of a region with the 32-bit value \<open>old\<close> in it
  (on a 16-bit boundary, between any words \<open>xs\<close> and \<open>ys\<close>), \<open>cksum_update\<close> computes the
  checksum of the region with \<open>new\<close> in its place, as long as that region is not all zeros.
\<close>

theorem cksum_update_recompute:
  assumes c: "csum = inet_cksum (xs @ halves old @ ys)"
    and nz: "\<exists>w \<in> set (xs @ halves new @ ys). w \<noteq> 0"
  shows "cksum_update csum old new = inet_cksum (xs @ halves new @ ys)"
proof -
  define A where "A = sum_list (map unat xs) + sum_list (map unat ys)"
  define H where "H w = sum_list (map unat (halves w))" for w
  define x where "x = unat (cksum_update csum old new)"
  define y where "y = unat (inet_cksum (xs @ halves new @ ys))"
  have S: "sum_list (map unat (xs @ halves w @ ys)) = H w + A" for w
    by (simp add: A_def H_def)
  have H: "(z + unat w) mod 65535 = (z + H w) mod 65535" for z w
    unfolding H_def by (metis halves_mod mod_add_right_eq)
  have y: "(y + H new + A) mod 65535 = 0" and "(unat csum + H old + A) mod 65535 = 0"
    using inet_cksum_residue [of "xs @ halves new @ ys"] inet_cksum_residue [of "xs @ halves old @ ys"]
    unfolding S c [symmetric] y_def by (simp_all add: add.assoc)
  moreover have "(x + H new) mod 65535 = (unat csum + H old) mod 65535"
    using cksum_update_props(1) [of csum old new] by (simp only: x_def H)
  then have "(x + H new + A) mod 65535 = (unat csum + H old + A) mod 65535"
    by (simp only: mod_add_cancel)
  ultimately have "(x + (H new + A)) mod 65535 = (y + (H new + A)) mod 65535"
    by (simp add: add.assoc)
  then have "x mod 65535 = y mod 65535" by (simp only: mod_add_cancel)
  moreover have "H new + A \<noteq> 0"
    using nz unfolding S [symmetric] sum_list_unat_eq_0 by blast
  then have "y \<le> 65534"
    unfolding y_def inet_cksum_eq S by (simp add: oc_rep_def)
  moreover have "x \<noteq> 65535" "x \<le> 65535"
    using cksum_update_props(2) [of csum old new] unat_bounds(2) [of "cksum_update csum old new"]
    by (simp_all add: x_def word_unat_eq_iff)
  ultimately have "x = y" by (simp add: le_less)
  then show ?thesis by (simp add: x_def y_def word_unat_eq_iff)
qed

theorem cksum_update_recompute_witness:
  "cksum_update (inet_cksum ([0x4500] @ halves 0x0A000102 @ [7])) 0x0A000102 0xD4303132 =
    inet_cksum ([0x4500] @ halves 0xD4303132 @ [7])"
  by (rule cksum_update_recompute) simp_all

section \<open>Sums over a buffer\<close>

lemma words16_append:
  "even (length a) \<Longrightarrow> words16 (a @ b) = words16 a @ words16 b"
  by (induction a rule: words16.induct) auto

lemma wsum_append: "even (length a) \<Longrightarrow> wsum (a @ b) = wsum a + wsum b"
  by (simp add: wsum_def words16_append)

lemma cksum_ok_wsum: "cksum_ok b \<longleftrightarrow> wsum b \<noteq> 0 \<and> wsum b mod 65535 = 0"
proof -
  have "cksum_ok b \<longleftrightarrow> unat (oc_sum (words16 b)) = 65535"
    by (simp add: cksum_ok_def word_unat_eq_iff)
  then show ?thesis by (simp add: unat_oc_sum oc_rep_full wsum_def)
qed

lemma wsum_split:
  assumes "even i" and "i + n \<le> length b" and "even n"
  shows "wsum b = wsum (take i b) + wsum (rdn b i n) + wsum (drop (i + n) b)"
proof -
  have "b = take i b @ rdn b i n @ drop (i + n) b"
    by (metis append_take_drop_id drop_drop add.commute rdn_def)
  then have "wsum b = wsum (take i b @ rdn b i n @ drop (i + n) b)" by simp
  also have "\<dots> = wsum (take i b) + wsum (rdn b i n) + wsum (drop (i + n) b)"
    using assms by (simp add: wsum_append buf_simps)
  finally show ?thesis .
qed

lemma wsum_wrn:
  assumes "even i" and "i + n \<le> length b" and "even n" and "length v = n"
  shows "wsum (wrn b i v) + wsum (rdn b i n) = wsum b + wsum v"
proof -
  have "wsum (wrn b i v) = wsum (take i b) + wsum v + wsum (drop (i + n) b)"
    using assms by (simp add: wrn_def wsum_append)
  with wsum_split [OF assms(1-3)] show ?thesis by simp
qed

lemma rdn_rd16: "i + 2 \<le> length b \<Longrightarrow> rdn b i 2 = [b ! i, b ! (i + 1)]"
  by (rule nth_equalityI) (auto simp: rdn_def nth_Cons' numeral_2_eq_2 less_Suc_eq)

lemma rdn_rd32: "i + 4 \<le> length b \<Longrightarrow> rdn b i 4 = [b ! i, b ! (i + 1), b ! (i + 2), b ! (i + 3)]"
  by (rule nth_equalityI) (auto simp: rdn_def nth_Cons' eval_nat_numeral less_Suc_eq)

lemma wsum_wr16:
  assumes "even i" and "i + 2 \<le> length b"
  shows "wsum (wr16 b i v) + unat (rd16 b i) = wsum b + unat v"
  using wsum_wrn [of i 2 b "[byte_of 0 v, byte_of 1 v]"] assms
  by (simp add: wr16_def rdn_rd16 rd16_def wsum_def codec_simps)

lemma wsum_wr32:
  assumes "even i" and "i + 4 \<le> length b"
  shows "(wsum (wr32 b i v) + unat (rd32 b i)) mod 65535 = (wsum b + unat v) mod 65535"
proof -
  have r: "wsum (rdn b i 4) = sum_list (map unat (halves (rd32 b i)))"
    using assms by (simp add: rdn_rd32 wsum_def halves_def rd32_def codec_simps)
  have "wsum (wr32 b i v) + wsum (rdn b i 4) = wsum b + sum_list (map unat (halves v))"
    using wsum_wrn [of i 4 b "[byte_of 0 v, byte_of 1 v, byte_of 2 v, byte_of 3 v]"] assms
    by (simp add: wr32_def halves_def wsum_def)
  then show ?thesis
    unfolding r by (metis halves_mod mod_add_right_eq)
qed

lemma wsum_nonzero:
  assumes "even i" and "i + 2 \<le> length b" and "rd16 b i \<noteq> 0"
  shows "wsum b \<noteq> 0"
proof -
  have "wsum (rdn b i 2) = unat (rd16 b i)"
    using assms(2) by (simp add: rdn_rd16 wsum_def rd16_def)
  then have "unat (rd16 b i) \<le> wsum b"
    using wsum_split [of i 2 b] assms(1,2) by simp
  then show ?thesis using assms(3) unat_eq_zero [of "rd16 b i"] by auto
qed

text \<open>
  Rewriting a 32-bit field of a region and updating the checksum the region carries keeps
  the region acceptable to a receiver.
\<close>

lemma cksum_ok_rewrite:
  fixes b :: bytes and i k :: nat and new :: u32
  defines "b' \<equiv> wr16 (wr32 b i new) k (cksum_update (rd16 b k) (rd32 b i) new)"
  assumes ok: "cksum_ok b" and ev: "even i" "even k"
    and i: "i + 4 \<le> length b" and k: "k + 2 \<le> length b" and dj: "k + 2 \<le> i \<or> i + 4 \<le> k"
    and nz: "wsum b' \<noteq> 0"
  shows "cksum_ok b'"
proof -
  define u where "u = cksum_update (rd16 b k) (rd32 b i) new"
  have "wsum b' + unat (rd16 b k) = wsum (wr32 b i new) + unat u"
    using wsum_wr16 [of k "wr32 b i new" u] ev i k dj by (simp add: b'_def u_def buf_simps)
  then have "wsum b' + (unat (rd16 b k) + unat (rd32 b i)) =
      wsum (wr32 b i new) + unat (rd32 b i) + unat u" by simp
  then have "(wsum b' + (unat (rd16 b k) + unat (rd32 b i))) mod 65535 =
      (wsum (wr32 b i new) + unat (rd32 b i) + unat u) mod 65535" by (rule arg_cong)
  also have "\<dots> = (wsum b + unat new + unat u) mod 65535"
    using wsum_wr32 [OF ev(1) i, of new] by (simp only: mod_add_cancel)
  also have "\<dots> = (unat u + unat new + wsum b) mod 65535" by (simp add: ac_simps)
  also have "\<dots> = (unat (rd16 b k) + unat (rd32 b i) + wsum b) mod 65535"
    using cksum_update_props(1) [of "rd16 b k" "rd32 b i" new]
    by (simp only: u_def mod_add_cancel)
  also have "\<dots> = (0 + (unat (rd16 b k) + unat (rd32 b i))) mod 65535"
  proof -
    have "wsum b mod 65535 = 0 mod 65535" using ok by (simp add: cksum_ok_wsum)
    then show ?thesis by (subst add.commute) (simp only: mod_add_cancel)
  qed
  finally have "wsum b' mod 65535 = 0 mod 65535" by (simp only: mod_add_cancel)
  with nz show ?thesis by (simp add: cksum_ok_wsum)
qed

end
