(* ===== verification/Natasha_State.thy ===== *)
theory Natasha_State
  imports Nat_Table Checksum
begin

text \<open>
  The data of the packet path: the structures of \<open>src/src/natasha.h\<close>,
  \<open>src/src/actions.h\<close>, \<open>src/src/conds.h\<close> and \<open>src/src/cli.h\<close>, the packet
  buffers, and the header accessors of \<open>src/src/network_headers.h\<close>.

  A worker's \<open>world\<close> is its \<open>struct core\<close> together with the packet buffers
  (\<open>mbufs\<close>, by address: an address that is not in the map is not a live packet, and
  any access through it is undefined) and ghost state: the packets given to
  \<open>rte_pktmbuf_free\<close>, the packets the NIC accepted, the number of bursts sent and the
  number of packets received.  DPDK is a parameter: the
  record \<open>dpdk\<close> holds the functions the code calls, and \<open>dpdk_ok\<close> what their
  documentation promises.  Numeric constants (offload flags, protocol numbers, header
  layouts) are those of DPDK v18.02 and of the protocols.
\<close>

named_theorems pkt_simps \<open>accesses to a live packet\<close>

section \<open>Packet buffers\<close>

type_synonym ptr = nat

text \<open>
  \<open>buf\<close> is the memory of the mbuf from its data offset to the end of its data room;
  the bytes at and after \<open>pkt_len\<close> are not part of the frame.
\<close>

record rte_mbuf =
  buf :: bytes
  pkt_len :: u32
  vlan_tci :: u16
  ol_flags :: u64
  l2_len :: nat
  l3_len :: nat

definition PKT_RX_IP_CKSUM_BAD :: u64 where "PKT_RX_IP_CKSUM_BAD = 2 ^ 4"
definition PKT_RX_IP_CKSUM_MASK :: u64 where "PKT_RX_IP_CKSUM_MASK = 2 ^ 4 OR 2 ^ 7"
definition PKT_RX_L4_CKSUM_BAD :: u64 where "PKT_RX_L4_CKSUM_BAD = 2 ^ 3"
definition PKT_RX_L4_CKSUM_MASK :: u64 where "PKT_RX_L4_CKSUM_MASK = 2 ^ 3 OR 2 ^ 8"
definition PKT_TX_VLAN_PKT :: u64 where "PKT_TX_VLAN_PKT = 2 ^ 57"
definition PKT_TX_IPV4 :: u64 where "PKT_TX_IPV4 = 2 ^ 55"
definition PKT_TX_TCP_CKSUM :: u64 where "PKT_TX_TCP_CKSUM = 2 ^ 52"
definition PKT_TX_UDP_CKSUM :: u64 where "PKT_TX_UDP_CKSUM = 3 * 2 ^ 52"

section \<open>Header layout\<close>

text \<open>A header accessor yields the offset of the header in the buffer.\<close>

definition sizeof_ether_hdr :: nat where [simp]: "sizeof_ether_hdr = 14"
definition sizeof_ipv4_hdr :: nat where [simp]: "sizeof_ipv4_hdr = 20"
definition sizeof_icmp_hdr :: nat where [simp]: "sizeof_icmp_hdr = 8"

definition eth_header :: nat where [simp]: "eth_header = 0"
definition arp_header :: nat where [simp]: "arp_header = eth_header + sizeof_ether_hdr"
definition ipv4_header :: nat where [simp]: "ipv4_header = eth_header + sizeof_ether_hdr"
definition icmp_header :: nat where [simp]: "icmp_header = ipv4_header + sizeof_ipv4_hdr"
definition tcp_header :: nat where [simp]: "tcp_header = ipv4_header + sizeof_ipv4_hdr"
definition udp_header :: nat where [simp]: "udp_header = ipv4_header + sizeof_ipv4_hdr"

text \<open>Offsets of the fields in their structures.\<close>

definition eth_d_addr :: nat where [simp]: "eth_d_addr = 0"
definition eth_s_addr :: nat where [simp]: "eth_s_addr = 6"
definition eth_ether_type :: nat where [simp]: "eth_ether_type = 12"

definition ip_total_length :: nat where [simp]: "ip_total_length = 2"
definition ip_fragment_offset :: nat where [simp]: "ip_fragment_offset = 6"
definition ip_next_proto_id :: nat where [simp]: "ip_next_proto_id = 9"
definition ip_hdr_checksum :: nat where [simp]: "ip_hdr_checksum = 10"
definition ip_src_addr :: nat where [simp]: "ip_src_addr = 12"
definition ip_dst_addr :: nat where [simp]: "ip_dst_addr = 16"

definition icmp_icmp_type :: nat where [simp]: "icmp_icmp_type = 0"
definition icmp_icmp_cksum :: nat where [simp]: "icmp_icmp_cksum = 2"
definition tcp_cksum :: nat where [simp]: "tcp_cksum = 16"
definition udp_dgram_cksum :: nat where [simp]: "udp_dgram_cksum = 6"

definition arp_arp_op :: nat where [simp]: "arp_arp_op = 6"
definition arp_arp_sha :: nat where [simp]: "arp_arp_sha = 8"
definition arp_arp_sip :: nat where [simp]: "arp_arp_sip = 14"
definition arp_arp_tha :: nat where [simp]: "arp_arp_tha = 18"
definition arp_arp_tip :: nat where [simp]: "arp_arp_tip = 24"

text \<open>
  \<open>NATA_IS_FIRST_FRAG\<close> and \<open>NATA_IS_FRAG\<close>, on the field as it lies in memory.
\<close>

definition IPV4_HDR_MF_FLAG :: u16 where "IPV4_HDR_MF_FLAG = 0x2000"
definition IPV4_HDR_OFFSET_MASK :: u16 where "IPV4_HDR_OFFSET_MASK = 0x1fff"

definition NATA_IS_FIRST_FRAG :: "u16 \<Rightarrow> bool" where
  "NATA_IS_FIRST_FRAG fragment_offset \<longleftrightarrow>
    fragment_offset AND bswap16 IPV4_HDR_MF_FLAG \<noteq> 0 \<and>
    \<not> (fragment_offset AND bswap16 IPV4_HDR_OFFSET_MASK \<noteq> 0)"

definition NATA_IS_FRAG :: "u16 \<Rightarrow> bool" where
  "NATA_IS_FRAG fragment_offset \<longleftrightarrow> fragment_offset AND bswap16 IPV4_HDR_OFFSET_MASK \<noteq> 0"

definition VLAN_ID :: "rte_mbuf \<Rightarrow> int" where
  "VLAN_ID pkt = uint (vlan_tci pkt AND 0xfff)"

section \<open>Configuration\<close>

record port_ip_addr =
  pia_block :: nat
  pia_ip :: u32
  pia_vlan :: u16

record port_config =
  ip_addresses :: "port_ip_addr list"
  mtu :: int

record ipv4_network =
  net_ip :: u32
  net_mask :: u32

record out_packet =
  out_port :: u8
  out_vlan :: int
  next_hop :: bytes

text \<open>
  The function pointer of an \<open>ACTION\<close> node with the data it is called with.
\<close>

datatype action_fn =
    Act_nat_rewrite int
  | Act_out out_packet
  | Act_print
  | Act_drop
  | Cond_ipv4_src_in_network ipv4_network
  | Cond_ipv4_dst_in_network ipv4_network
  | Cond_vlan int

datatype node_type = N_NOOP | N_ACTION | N_SEQ | N_IF | N_COND | N_AND | N_OR

text \<open>A node with its block address and the address of its data, or the null pointer.\<close>

datatype app_config_node =
    Null_node
  | Node (node_block: nat) (node_type: node_type) (node_left: app_config_node)
      (node_right: app_config_node) (node_action: "action_fn option") (node_data: "nat option")

definition NATASHA_MAX_ETHPORTS :: nat where [simp]: "NATASHA_MAX_ETHPORTS = 2"

record app_config =
  ports :: "port_config list"
  nat_lookup :: nat_lookup
  rules :: app_config_node
  flags :: u32

section \<open>Workers\<close>

record natasha_app_stats =
  drop_no_rule :: u64
  drop_nat_condition :: u64
  drop_bad_l3_cksum :: u64
  rx_bad_l4_cksum :: u64
  drop_unknown_icmp :: u64
  drop_unhandled_ethertype :: u64
  drop_tx_notsent :: u64

definition MAX_TX_BURST :: nat where [simp]: "MAX_TX_BURST = 32"
definition NATASHA_MAX_QUEUES :: nat where [simp]: "NATASHA_MAX_QUEUES = 16"

record tx_queue =
  tq_pkts :: "ptr list"
  tq_id :: u16
  tq_len :: u16

record core =
  core_config :: app_config
  rx_queues :: "u16 list"
  tx_queues :: "tx_queue list"
  stats :: natasha_app_stats
  core_id :: u32

record world =
  wcore :: core
  mbufs :: "ptr \<Rightarrow> rte_mbuf option"
  freed :: "ptr list"
  wire :: "(u8 \<times> u16 \<times> rte_mbuf) list"
  bursts :: nat
  arrived :: nat

abbreviation config_of :: "world \<Rightarrow> app_config" where
  "config_of w \<equiv> core_config (wcore w)"

abbreviation stats_of :: "world \<Rightarrow> natasha_app_stats" where
  "stats_of w \<equiv> stats (wcore w)"

abbreviation queues_of :: "world \<Rightarrow> tx_queue list" where
  "queues_of w \<equiv> tx_queues (wcore w)"

definition upd_stats :: "(natasha_app_stats \<Rightarrow> natasha_app_stats) \<Rightarrow> world \<Rightarrow> world" where
  "upd_stats f w = w\<lparr>wcore := (wcore w)\<lparr>stats := f (stats_of w)\<rparr>\<rparr>"

definition upd_queue :: "nat \<Rightarrow> tx_queue \<Rightarrow> world \<Rightarrow> world" where
  "upd_queue i q w = w\<lparr>wcore := (wcore w)\<lparr>tx_queues := (queues_of w)[i := q]\<rparr>\<rparr>"

section \<open>DPDK\<close>

text \<open>
  \<open>rte_eth_tx_burst\<close> takes the number of bursts sent so far, so that its answer may
  change from call to call, and the number of packets offered.
\<close>

record dpdk =
  rte_eth_dev_count :: nat
  rte_eth_macaddr_get :: "u8 \<Rightarrow> bytes"
  rte_eth_tx_prepare :: "u8 \<Rightarrow> u16 \<Rightarrow> rte_mbuf list \<Rightarrow> rte_mbuf list"
  rte_eth_tx_burst :: "nat \<Rightarrow> u8 \<Rightarrow> u16 \<Rightarrow> u16 \<Rightarrow> u16"
  rte_ipv4_cksum :: "bytes \<Rightarrow> u16"
  rte_raw_cksum :: "bytes \<Rightarrow> u16"

definition dpdk_ok :: "dpdk \<Rightarrow> bool" where
  "dpdk_ok D \<longleftrightarrow>
    (\<forall>port. length (rte_eth_macaddr_get D port) = 6) \<and>
    (\<forall>port q ms. length (rte_eth_tx_prepare D port q ms) = length ms) \<and>
    (\<forall>n port q k. rte_eth_tx_burst D n port q k \<le> k)"

text \<open>
  \<open>rte_raw_cksum\<close> is the one's complement sum of the buffer, not complemented;
  \<open>rte_ipv4_cksum\<close> is the value that complements the sum of a header.
\<close>

definition dpdk_cksum_ok :: "dpdk \<Rightarrow> bool" where
  "dpdk_cksum_ok D \<longleftrightarrow>
    (\<forall>b. rte_raw_cksum D b = oc_sum (words16 b)) \<and>
    (\<forall>b. length b = 20 \<longrightarrow> oc_sum (words16 b) \<noteq> 0 \<longrightarrow>
       oc_add (rte_ipv4_cksum D b) (oc_sum (words16 b)) = 0xffff)"

text \<open>An instance: two ports, a NIC that takes at most 20 packets of a burst.\<close>

definition dpdk0 :: dpdk where
  "dpdk0 = \<lparr>rte_eth_dev_count = 2,
    rte_eth_macaddr_get = (\<lambda>port. [0x52, 0x54, 0, 0, 0, port]),
    rte_eth_tx_prepare = (\<lambda>port q ms. ms),
    rte_eth_tx_burst = (\<lambda>n port q k. if k \<le> 20 then k else 20),
    rte_ipv4_cksum = (\<lambda>b. inet_cksum (words16 b)),
    rte_raw_cksum = (\<lambda>b. oc_sum (words16 b))\<rparr>"

lemma oc_add_NOT: "oc_add (NOT w) w = 0xffff"
proof -
  have "NOT w + w = - 1" by (simp add: not_eq_complement)
  then show ?thesis by (simp add: oc_add_def Let_def)
qed

lemma dpdk0_ok [simp]: "dpdk_ok dpdk0" "dpdk_cksum_ok dpdk0"
  by (auto simp: dpdk_ok_def dpdk_cksum_ok_def dpdk0_def inet_cksum_def oc_add_NOT)

text \<open>A worker with 16 empty transmit queues and the packets \<open>ms\<close> at the addresses 0, 1, ...\<close>

definition empty_queue :: tx_queue where
  "empty_queue = \<lparr>tq_pkts = replicate MAX_TX_BURST 0, tq_id = 0, tq_len = 0\<rparr>"

definition mbuf_of :: "bytes \<Rightarrow> rte_mbuf" where
  "mbuf_of b = \<lparr>buf = b, pkt_len = of_nat (length b), vlan_tci = 0, ol_flags = 0,
     l2_len = 0, l3_len = 0\<rparr>"

definition config0 :: app_config where
  "config0 = \<lparr>ports =
      [\<lparr>ip_addresses = [\<lparr>pia_block = 1, pia_ip = 0x0A000001, pia_vlan = 0\<rparr>], mtu = 1500\<rparr>,
       \<lparr>ip_addresses = [\<lparr>pia_block = 2, pia_ip = 0xC0A80001, pia_vlan = 7\<rparr>], mtu = 1500\<rparr>],
     nat_lookup = None, rules = Null_node, flags = 0\<rparr>"

definition stats0 :: natasha_app_stats where
  "stats0 = \<lparr>drop_no_rule = 0, drop_nat_condition = 0, drop_bad_l3_cksum = 0, rx_bad_l4_cksum = 0,
    drop_unknown_icmp = 0, drop_unhandled_ethertype = 0, drop_tx_notsent = 0\<rparr>"

definition world0 :: "app_config \<Rightarrow> rte_mbuf list \<Rightarrow> world" where
  "world0 c ms = \<lparr>wcore = \<lparr>core_config = c, rx_queues = replicate NATASHA_MAX_QUEUES 0,
       tx_queues = replicate NATASHA_MAX_QUEUES empty_queue, stats = stats0, core_id = 1\<rparr>,
     mbufs = (\<lambda>p. if p < length ms then Some (ms ! p) else None),
     freed = [], wire = [], bursts = 0, arrived = length ms\<rparr>"

lemma world0_simps [simp]:
  "config_of (world0 c ms) = c" "queues_of (world0 c ms) = replicate 16 empty_queue"
  "freed (world0 c ms) = []" "wire (world0 c ms) = []" "stats_of (world0 c ms) = stats0"
  "p < length ms \<Longrightarrow> mbufs (world0 c ms) p = Some (ms ! p)"
  by (simp_all add: world0_def)

section \<open>Access to a packet\<close>

definition rte_pktmbuf_free :: "ptr \<Rightarrow> world \<Rightarrow> world option" where
  "rte_pktmbuf_free p w = (case mbufs w p of None \<Rightarrow> None
     | Some _ \<Rightarrow> Some (w\<lparr>mbufs := (mbufs w)(p := None), freed := freed w @ [p]\<rparr>))"

definition set_pkt :: "ptr \<Rightarrow> rte_mbuf \<Rightarrow> world \<Rightarrow> world" where
  "set_pkt p m w = w\<lparr>mbufs := (mbufs w)(p \<mapsto> m)\<rparr>"

definition upd_pkt :: "ptr \<Rightarrow> (rte_mbuf \<Rightarrow> rte_mbuf option) \<Rightarrow> world \<Rightarrow> world option" where
  "upd_pkt p f w = do { m \<leftarrow> mbufs w p; m \<leftarrow> f m; Some (set_pkt p m w) }"

definition pkt_ld8 :: "ptr \<Rightarrow> nat \<Rightarrow> world \<Rightarrow> u8 option" where
  "pkt_ld8 p i w = do { m \<leftarrow> mbufs w p; ld8 (buf m) i }"

definition pkt_ld16 :: "ptr \<Rightarrow> nat \<Rightarrow> world \<Rightarrow> u16 option" where
  "pkt_ld16 p i w = do { m \<leftarrow> mbufs w p; ld16 (buf m) i }"

definition pkt_ld32 :: "ptr \<Rightarrow> nat \<Rightarrow> world \<Rightarrow> u32 option" where
  "pkt_ld32 p i w = do { m \<leftarrow> mbufs w p; ld32 (buf m) i }"

definition pkt_ldn :: "ptr \<Rightarrow> nat \<Rightarrow> nat \<Rightarrow> world \<Rightarrow> bytes option" where
  "pkt_ldn p i n w = do { m \<leftarrow> mbufs w p; ldn (buf m) i n }"

definition upd_buf :: "ptr \<Rightarrow> (bytes \<Rightarrow> bytes option) \<Rightarrow> world \<Rightarrow> world option" where
  "upd_buf p f w = upd_pkt p (\<lambda>m. do { b \<leftarrow> f (buf m); Some (m\<lparr>buf := b\<rparr>) }) w"

definition pkt_st8 :: "ptr \<Rightarrow> nat \<Rightarrow> u8 \<Rightarrow> world \<Rightarrow> world option" where
  "pkt_st8 p i v w = upd_buf p (\<lambda>b. st8 b i v) w"

definition pkt_st16 :: "ptr \<Rightarrow> nat \<Rightarrow> u16 \<Rightarrow> world \<Rightarrow> world option" where
  "pkt_st16 p i v w = upd_buf p (\<lambda>b. st16 b i v) w"

definition pkt_st32 :: "ptr \<Rightarrow> nat \<Rightarrow> u32 \<Rightarrow> world \<Rightarrow> world option" where
  "pkt_st32 p i v w = upd_buf p (\<lambda>b. st32 b i v) w"

definition pkt_stn :: "ptr \<Rightarrow> nat \<Rightarrow> bytes \<Rightarrow> world \<Rightarrow> world option" where
  "pkt_stn p i v w = upd_buf p (\<lambda>b. stn b i v) w"

definition pkt_or_flags :: "ptr \<Rightarrow> u64 \<Rightarrow> world \<Rightarrow> world option" where
  "pkt_or_flags p fl w = upd_pkt p (\<lambda>m. Some (m\<lparr>ol_flags := ol_flags m OR fl\<rparr>)) w"

section \<open>Lemmas\<close>

lemma set_pkt_simps [simp]:
  "wcore (set_pkt p m w) = wcore w" "freed (set_pkt p m w) = freed w"
  "wire (set_pkt p m w) = wire w" "bursts (set_pkt p m w) = bursts w" "arrived (set_pkt p m w) = arrived w"
  "mbufs (set_pkt p m w) = (mbufs w)(p \<mapsto> m)"
  by (simp_all add: set_pkt_def)

lemma set_pkt_set_pkt [simp]: "set_pkt p m (set_pkt p m' w) = set_pkt p m w"
  by (simp add: set_pkt_def)

lemma set_pkt_same: "mbufs w p = Some m \<Longrightarrow> set_pkt p m w = w"
  by (simp add: set_pkt_def fun_upd_idem)

lemma upd_stats_simps [simp]:
  "mbufs (upd_stats f w) = mbufs w" "freed (upd_stats f w) = freed w"
  "wire (upd_stats f w) = wire w" "bursts (upd_stats f w) = bursts w" "arrived (upd_stats f w) = arrived w"
  "config_of (upd_stats f w) = config_of w" "queues_of (upd_stats f w) = queues_of w"
  "stats_of (upd_stats f w) = f (stats_of w)"
  by (simp_all add: upd_stats_def)

lemma upd_queue_simps [simp]:
  "mbufs (upd_queue i q w) = mbufs w" "freed (upd_queue i q w) = freed w"
  "wire (upd_queue i q w) = wire w" "bursts (upd_queue i q w) = bursts w" "arrived (upd_queue i q w) = arrived w"
  "config_of (upd_queue i q w) = config_of w" "stats_of (upd_queue i q w) = stats_of w"
  "queues_of (upd_queue i q w) = (queues_of w)[i := q]"
  by (simp_all add: upd_queue_def)

lemma pkt_ld_simps [pkt_simps]:
  assumes "mbufs w p = Some m"
  shows "pkt_ld8 p i w = ld8 (buf m) i" "pkt_ld16 p i w = ld16 (buf m) i"
    "pkt_ld32 p i w = ld32 (buf m) i" "pkt_ldn p i n w = ldn (buf m) i n"
  using assms by (simp_all add: pkt_ld8_def pkt_ld16_def pkt_ld32_def pkt_ldn_def)

lemma pkt_st_simps [pkt_simps]:
  assumes "mbufs w p = Some m"
  shows "i < length (buf m) \<Longrightarrow> pkt_st8 p i v w = Some (set_pkt p (m\<lparr>buf := wrn (buf m) i [v]\<rparr>) w)"
    "i + 2 \<le> length (buf m) \<Longrightarrow> pkt_st16 p i v16 w = Some (set_pkt p (m\<lparr>buf := wr16 (buf m) i v16\<rparr>) w)"
    "i + 4 \<le> length (buf m) \<Longrightarrow> pkt_st32 p i v32 w = Some (set_pkt p (m\<lparr>buf := wr32 (buf m) i v32\<rparr>) w)"
    "i + length vs \<le> length (buf m) \<Longrightarrow> pkt_stn p i vs w = Some (set_pkt p (m\<lparr>buf := wrn (buf m) i vs\<rparr>) w)"
  using assms
  by (simp_all add: pkt_st8_def pkt_st16_def pkt_st32_def pkt_stn_def upd_buf_def upd_pkt_def buf_simps)

lemma pkt_or_flags_simps [pkt_simps]:
  "mbufs w p = Some m \<Longrightarrow>
    pkt_or_flags p fl w = Some (set_pkt p (m\<lparr>ol_flags := ol_flags m OR fl\<rparr>) w)"
  by (simp add: pkt_or_flags_def upd_pkt_def)

lemma rte_pktmbuf_free_Some [pkt_simps]:
  "mbufs w p = Some m \<Longrightarrow>
    rte_pktmbuf_free p w = Some (w\<lparr>mbufs := (mbufs w)(p := None), freed := freed w @ [p]\<rparr>)"
  by (simp add: rte_pktmbuf_free_def)

end
