(* ===== verification/Tx_Queue.thy ===== *)
theory Tx_Queue
  imports Natasha_State "HOL-Library.Sublist"
begin

text \<open>
  Packet output, \<open>src/src/pkt.c\<close>: the test whether an address is one of ours, and
  the transmit queues that collect packets until a burst is sent.

  The queue a C function receives by address is given here by its index in
  \<open>core->tx_queues\<close>.  \<open>owns ps w\<close> says that the worker holds exactly the
  packets \<open>ps\<close> beside those waiting in its queues: every live packet has one owner, so
  that an operation that keeps it neither leaks a packet nor frees or sends one twice.
\<close>

section \<open>Operations\<close>

fun port_ip_match :: "port_ip_addr list \<Rightarrow> u32 \<Rightarrow> int \<Rightarrow> bool" where
  "port_ip_match [] ip vlan = False"
| "port_ip_match (a # as) ip vlan =
    (if pia_ip a = ip \<and> uint (pia_vlan a) = vlan then True else port_ip_match as ip vlan)"

definition is_natasha_port_ip :: "app_config \<Rightarrow> u32 \<Rightarrow> int \<Rightarrow> u8 \<Rightarrow> bool option" where
  "is_natasha_port_ip c ip vlan port = do {
     guard (unat port < length (ports c));
     Some (port_ip_match (ip_addresses (ports c ! unat port)) ip vlan) }"

fun is_natasha_ip_loop :: "app_config \<Rightarrow> u32 \<Rightarrow> int \<Rightarrow> nat list \<Rightarrow> bool option" where
  "is_natasha_ip_loop c ip vlan [] = Some False"
| "is_natasha_ip_loop c ip vlan (port # ps) = do {
     r \<leftarrow> is_natasha_port_ip c ip vlan (of_nat port);
     if r then Some True else is_natasha_ip_loop c ip vlan ps }"

definition is_natasha_ip :: "dpdk \<Rightarrow> app_config \<Rightarrow> u32 \<Rightarrow> int \<Rightarrow> bool option" where
  "is_natasha_ip D c ip vlan = is_natasha_ip_loop c ip vlan [0..<rte_eth_dev_count D]"

text \<open>The NIC takes a packet: the driver owns it from there on.\<close>

fun nic_accept :: "u8 \<Rightarrow> u16 \<Rightarrow> ptr list \<Rightarrow> world \<Rightarrow> world option" where
  "nic_accept port q [] w = Some w"
| "nic_accept port q (p # ps) w = do {
     m \<leftarrow> mbufs w p;
     nic_accept port q ps
       (w\<lparr>mbufs := (mbufs w)(p := None), wire := wire w @ [(port, q, m)]\<rparr>) }"

fun free_unsent :: "ptr list \<Rightarrow> world \<Rightarrow> world option" where
  "free_unsent [] w = Some w"
| "free_unsent (p # ps) w = do {
     w \<leftarrow> rte_pktmbuf_free p (upd_stats (drop_tx_notsent_update (\<lambda>n. n + 1)) w);
     free_unsent ps w }"

definition tx_flush :: "dpdk \<Rightarrow> u8 \<Rightarrow> nat \<Rightarrow> world \<Rightarrow> (u16 \<times> world) option" where
  "tx_flush D port i w = do {
     guard (i < length (queues_of w));
     let q = queues_of w ! i;
     if tq_len q = 0 then Some (0, w)
     else do {
       guard (unat (tq_len q) \<le> length (tq_pkts q));
       let ps = take (unat (tq_len q)) (tq_pkts q);
       ms \<leftarrow> those (map (mbufs w) ps);
       let w = w\<lparr>mbufs := (mbufs w)(ps [\<mapsto>] rte_eth_tx_prepare D port (tq_id q) ms)\<rparr>;
       let sent = rte_eth_tx_burst D (bursts w) port (tq_id q) (tq_len q);
       w \<leftarrow> nic_accept port (tq_id q) (take (unat sent) ps) (w\<lparr>bursts := Suc (bursts w)\<rparr>);
       w \<leftarrow> free_unsent (drop (unat sent) ps) w;
       Some (sent, upd_queue i (q\<lparr>tq_len := 0\<rparr>) w) } }"

definition tx_send :: "dpdk \<Rightarrow> ptr \<Rightarrow> u8 \<Rightarrow> nat \<Rightarrow> world \<Rightarrow> (u16 \<times> world) option" where
  "tx_send D p port i w = do {
     m \<leftarrow> mbufs w p;
     let m = (if vlan_tci m \<noteq> 0 then m\<lparr>ol_flags := ol_flags m OR PKT_TX_VLAN_PKT\<rparr> else m);
     let w = set_pkt p (m\<lparr>l2_len := sizeof_ether_hdr, l3_len := sizeof_ipv4_hdr\<rparr>) w;
     guard (i < length (queues_of w));
     let q = queues_of w ! i;
     guard (unat (tq_len q) < length (tq_pkts q));
     let q = q\<lparr>tq_pkts := (tq_pkts q)[unat (tq_len q) := p], tq_len := tq_len q + 1\<rparr>;
     let w = upd_queue i q w;
     if MAX_TX_BURST \<le> unat (tq_len q) then tx_flush D port i w
     else Some (0, w) }"

section \<open>Ownership of packets\<close>

definition queued :: "tx_queue \<Rightarrow> ptr list" where
  "queued q = take (unat (tq_len q)) (tq_pkts q)"

definition all_queued :: "world \<Rightarrow> ptr list" where
  "all_queued w = concat (map queued (queues_of w))"

definition queue_ok :: "tx_queue \<Rightarrow> bool" where
  "queue_ok q \<longleftrightarrow> length (tq_pkts q) = MAX_TX_BURST \<and> unat (tq_len q) \<le> MAX_TX_BURST"

definition shares :: "ptr list \<Rightarrow> world \<Rightarrow> bool" where
  "shares ps w \<longleftrightarrow>
    (\<forall>q \<in> set (queues_of w). queue_ok q) \<and>
    distinct (ps @ all_queued w) \<and>
    dom (mbufs w) = set ps \<union> set (all_queued w)"

definition has_room :: "world \<Rightarrow> bool" where
  "has_room w \<longleftrightarrow> (\<forall>q \<in> set (queues_of w). unat (tq_len q) < MAX_TX_BURST)"

definition owns :: "ptr list \<Rightarrow> world \<Rightarrow> bool" where
  "owns ps w \<longleftrightarrow> shares ps w \<and> has_room w"

text \<open>
  Every drop counter, \<open>rx_bad_l4_cksum\<close> excepted (it counts packets that go on).
\<close>

definition drops :: "natasha_app_stats \<Rightarrow> u64" where
  "drops s = drop_no_rule s + drop_nat_condition s + drop_bad_l3_cksum s +
     drop_unknown_icmp s + drop_unhandled_ethertype s + drop_tx_notsent s"

text \<open>The packets a worker has seen: those it still has, those it freed, those it sent.\<close>

definition packets :: "world \<Rightarrow> nat" where
  "packets w = card (dom (mbufs w)) + length (freed w) + length (wire w)"

text \<open>
  \<open>evolves ps w w'\<close>, where \<open>ps\<close> are packets that are not worked on: what every operation of the packet path keeps.  The configuration
  and the shape of the worker stay, the logs only grow, every packet freed has been
  counted by exactly one drop counter, no packet appears or vanishes, and \<open>ps\<close> are untouched.
\<close>

definition evolves :: "ptr list \<Rightarrow> world \<Rightarrow> world \<Rightarrow> bool" where
  "evolves ps w w' \<longleftrightarrow>
    config_of w' = config_of w \<and> rx_queues (wcore w') = rx_queues (wcore w) \<and>
    core_id (wcore w') = core_id (wcore w) \<and> arrived w' = arrived w \<and>
    length (queues_of w') = length (queues_of w) \<and>
    prefix (freed w) (freed w') \<and> prefix (wire w) (wire w') \<and>
    drops (stats_of w') - of_nat (length (freed w')) = drops (stats_of w) - of_nat (length (freed w)) \<and>
    (finite (dom (mbufs w)) \<longrightarrow> finite (dom (mbufs w')) \<and> packets w' = packets w) \<and>
    (\<forall>q \<in> set ps. mbufs w' q = mbufs w q)"

lemma evolves_subset: "evolves ps w w' \<Longrightarrow> set qs \<subseteq> set ps \<Longrightarrow> evolves qs w w'"
  by (auto simp: evolves_def)

lemma evolves_refl [simp, intro]: "evolves ps w w"
  by (simp add: evolves_def)

lemma evolves_trans [trans]: "evolves ps u v \<Longrightarrow> evolves ps v w \<Longrightarrow> evolves ps u w"
  by (simp add: evolves_def) (metis prefix_order.trans)

lemma evolves_config: "evolves ps w w' \<Longrightarrow> config_of w' = config_of w"
  by (simp add: evolves_def)

lemma evolves_queues: "evolves ps w w' \<Longrightarrow> length (queues_of w') = length (queues_of w)"
  by (simp add: evolves_def)

lemma evolves_set_pkt [simp]: "mbufs w p = Some m' \<Longrightarrow> p \<notin> set ps \<Longrightarrow> evolves ps w (set_pkt p m w)"
  by (auto simp: evolves_def packets_def insert_absorb domI)

lemma owns_set_pkt [simp]: "owns (p # ps) w \<Longrightarrow> owns (p # ps) (set_pkt p m w)"
  by (auto simp: owns_def shares_def has_room_def all_queued_def)

lemma owns_upd_stats [simp]: "owns ps (upd_stats f w) \<longleftrightarrow> owns ps w"
  by (simp add: owns_def shares_def has_room_def all_queued_def)

lemma owns_head: "owns (p # ps) w \<Longrightarrow> p \<notin> set ps"
  by (simp add: owns_def shares_def)

lemma owns_live: "owns ps w \<Longrightarrow> p \<in> set ps \<Longrightarrow> \<exists>m. mbufs w p = Some m"
  by (auto simp: owns_def shares_def)

lemma shares_queue_ok: "shares ps w \<Longrightarrow> i < length (queues_of w) \<Longrightarrow> queue_ok (queues_of w ! i)"
  by (simp add: shares_def)

lemma all_queued_split:
  assumes "i < length (queues_of w)"
  shows "all_queued w = concat (map queued (take i (queues_of w))) @ queued (queues_of w ! i) @
    concat (map queued (drop (Suc i) (queues_of w)))"
  by (subst all_queued_def, subst id_take_nth_drop [OF assms]) simp

lemma all_queued_update:
  assumes "i < length (queues_of w)"
  shows "all_queued (upd_queue i q w) = concat (map queued (take i (queues_of w))) @ queued q @
    concat (map queued (drop (Suc i) (queues_of w)))"
  using assms by (simp add: all_queued_def upd_conv_take_nth_drop)

lemma queued_live:
  assumes "shares ps w" "i < length (queues_of w)"
  shows "distinct (queued (queues_of w ! i))" "set (queued (queues_of w ! i)) \<subseteq> dom (mbufs w)"
  using assms by (auto simp: shares_def all_queued_split)

section \<open>Sending a burst\<close>

lemma restrict_map_UNIV [simp]: "m |` UNIV = m"
  by (simp add: restrict_map_def)

lemma map_upds_nth:
  assumes "length ms = length ps" "distinct ps" "k < length ps"
  shows "(m(ps [\<mapsto>] ms)) (ps ! k) = Some (ms ! k)"
  using assms
proof (induction ms ps arbitrary: m k rule: list_induct2)
  case (Cons x ms p ps)
  then show ?case by (cases k) auto
qed simp

lemma nic_accept_ok:
  assumes "distinct ps" "set ps \<subseteq> dom (mbufs w)"
  shows "nic_accept port q ps w = Some (w\<lparr>mbufs := mbufs w |` (- set ps),
    wire := wire w @ map (\<lambda>p. (port, q, the (mbufs w p))) ps\<rparr>)"
  using assms
proof (induction ps arbitrary: w)
  case (Cons p ps)
  then obtain m where m: "mbufs w p = Some m" by auto
  have "nic_accept port q ps (w\<lparr>mbufs := (mbufs w)(p := None), wire := wire w @ [(port, q, m)]\<rparr>) =
    Some (w\<lparr>mbufs := ((mbufs w)(p := None)) |` (- set ps),
      wire := wire w @ (port, q, m) # map (\<lambda>p. (port, q, the (mbufs w p))) ps\<rparr>)"
    using Cons.prems by (subst Cons.IH) (auto simp: fun_upd_def)
  moreover have "((mbufs w)(p := None)) |` (- set ps) = mbufs w |` (- set (p # ps))"
    by (auto simp: restrict_map_def)
  ultimately show ?case by (simp add: m)
qed simp

lemma free_unsent_ok:
  assumes "distinct ps" "set ps \<subseteq> dom (mbufs w)"
  shows "free_unsent ps w = Some (upd_stats (drop_tx_notsent_update (\<lambda>n. n + of_nat (length ps)))
    (w\<lparr>mbufs := mbufs w |` (- set ps), freed := freed w @ ps\<rparr>))"
  using assms
proof (induction ps arbitrary: w)
  case (Cons p ps)
  let ?w = "(upd_stats (drop_tx_notsent_update (\<lambda>n. n + 1)) w)
    \<lparr>mbufs := (mbufs w)(p := None), freed := freed w @ [p]\<rparr>"
  obtain m where m: "mbufs w p = Some m" using Cons.prems by auto
  have "free_unsent (p # ps) w = free_unsent ps ?w"
    by (simp add: m rte_pktmbuf_free_def)
  also have "\<dots> = Some (upd_stats (drop_tx_notsent_update (\<lambda>n. n + of_nat (length ps)))
    (?w\<lparr>mbufs := ((mbufs w)(p := None)) |` (- set ps), freed := freed w @ p # ps\<rparr>))"
    using Cons.prems by (subst Cons.IH) auto
  also have "((mbufs w)(p := None)) |` (- set ps) = mbufs w |` (- set (p # ps))"
    by (auto simp: restrict_map_def)
  finally show ?case by (simp add: upd_stats_def algebra_simps)
qed (simp add: upd_stats_def)

lemma those_map_Some: "set ps \<subseteq> dom m \<Longrightarrow> those (map m ps) = Some (map (the \<circ> m) ps)"
  by (induction ps) auto

lemma map_upds_the:
  assumes "distinct ps" "length ms = length ps"
  shows "map (\<lambda>p. f (the ((m(ps [\<mapsto>] ms)) p))) (take n ps) = map f (take n ms)"
  using assms by (intro nth_equalityI) (auto simp: map_upds_nth)

lemma map_upds_restrict: "length ms = length ps \<Longrightarrow> (m(ps [\<mapsto>] ms)) |` (- set ps) = m |` (- set ps)"
  by (rule ext) (simp add: restrict_map_def map_upds_apply_nontin)

lemma restrict_take_drop: "m |` (- set (take n ps)) |` (- set (drop n ps)) = m |` (- set ps)"
  by (subst (3) append_take_drop_id [of n ps, symmetric], subst set_append) (simp add: Int_commute)

text \<open>
  What a flush does, in closed form: it offers the prepared packets, those the NIC takes
  go out in order, the others are freed and counted, and the queue is empty.
\<close>

lemma tx_flush_ok:
  assumes D: "dpdk_ok D" and own: "shares ps w" and i: "i < length (queues_of w)"
    and q: "q = queues_of w ! i" and ne: "tq_len q \<noteq> 0"
    and ms: "ms = rte_eth_tx_prepare D port (tq_id q) (map (the \<circ> mbufs w) (queued q))"
    and sent: "sent = rte_eth_tx_burst D (bursts w) port (tq_id q) (tq_len q)"
  shows "tx_flush D port i w = Some (sent, upd_queue i (q\<lparr>tq_len := 0\<rparr>)
    (upd_stats (drop_tx_notsent_update (\<lambda>n. n + of_nat (unat (tq_len q) - unat sent)))
      (w\<lparr>bursts := Suc (bursts w),
         wire := wire w @ map (\<lambda>m. (port, tq_id q, m)) (take (unat sent) ms),
         mbufs := mbufs w |` (- set (queued q)),
         freed := freed w @ drop (unat sent) (queued q)\<rparr>)))"
proof -
  let ?ps = "queued q" and ?n = "unat sent"
  let ?mb = "(mbufs w)(?ps [\<mapsto>] ms)"
  have qok: "queue_ok q" using own i q by (simp add: shares_queue_ok)
  have len: "length ?ps = unat (tq_len q)" using qok by (simp add: queue_ok_def queued_def)
  have dist: "distinct ?ps" and dom: "set ?ps \<subseteq> dom (mbufs w)"
    using queued_live [OF own i] q by auto
  have lms: "length ms = length ?ps" using D ms by (simp add: dpdk_ok_def)
  have sub: "set (take ?n ?ps) \<subseteq> dom ?mb" "set (drop ?n ?ps) \<subseteq> dom (?mb |` (- set (take ?n ?ps)))"
    using dom set_take_subset [of ?n ?ps] set_drop_subset [of ?n ?ps]
      set_take_disj_set_drop_if_distinct [OF dist, of ?n ?n] by auto
  have mb: "?mb |` (- set (take ?n ?ps)) |` (- set (drop ?n ?ps)) = mbufs w |` (- set ?ps)"
    by (simp only: restrict_take_drop map_upds_restrict [OF lms])
  have wire: "map (\<lambda>p. (port, tq_id q, the (?mb p))) (take ?n ?ps) =
      map (\<lambda>m. (port, tq_id q, m)) (take ?n ms)"
    by (rule map_upds_the [OF dist lms])
  show ?thesis
    unfolding tx_flush_def
    using ne i qok dist sub len
    apply (simp add: Let_def q [symmetric] queue_ok_def queued_def [symmetric]
        those_map_Some [OF dom] ms [symmetric] sent [symmetric])
    apply (simp add: nic_accept_ok free_unsent_ok wire mb [unfolded restrict_restrict])
    done
qed


lemma drops_tx_notsent: "drops (drop_tx_notsent_update (\<lambda>n. n + k) s) = drops s + k"
  by (simp add: drops_def)

lemma queue_ok_empty: "queue_ok q \<Longrightarrow> queue_ok (q\<lparr>tq_len := 0\<rparr>) \<and> queued (q\<lparr>tq_len := 0\<rparr>) = []"
  by (simp add: queue_ok_def queued_def)

lemma shares_flushed:
  assumes own: "shares ps w" and i: "i < length (queues_of w)" and q: "q = queues_of w ! i"
    and w': "mbufs w' = mbufs w |` (- set (queued q))" "queues_of w' = (queues_of w)[i := q\<lparr>tq_len := 0\<rparr>]"
  shows "shares ps w'"
proof -
  let ?a = "concat (map queued (take i (queues_of w)))"
  let ?b = "concat (map queued (drop (Suc i) (queues_of w)))"
  have "queue_ok (q\<lparr>tq_len := 0\<rparr>)" and e: "queued (q\<lparr>tq_len := 0\<rparr>) = []"
    using queue_ok_empty [of q] shares_queue_ok [OF own i] q by auto
  then have ok: "\<forall>q \<in> set (queues_of w'). queue_ok q"
    using own w' by (auto simp: shares_def dest!: set_update_subset_insert [THEN subsetD])
  have new: "all_queued w' = ?a @ ?b"
    using i w' e by (simp add: all_queued_def upd_conv_take_nth_drop)
  have old: "all_queued w = ?a @ queued q @ ?b" using i q by (simp add: all_queued_split)
  have "distinct (ps @ ?a @ queued q @ ?b)"
    and "dom (mbufs w) = set ps \<union> set (?a @ queued q @ ?b)"
    using own unfolding shares_def old by blast+
  then have "distinct (ps @ all_queued w')" "dom (mbufs w') = set ps \<union> set (all_queued w')"
    unfolding new w' by auto
  with ok show ?thesis by (simp add: shares_def)
qed

lemma tx_flush_shares:
  assumes D: "dpdk_ok D" and own: "shares ps w" and i: "i < length (queues_of w)"
  obtains sent w' where "tx_flush D port i w = Some (sent, w')" "shares ps w'" "evolves ps w w'"
    "queues_of w' = (queues_of w)[i := (queues_of w ! i)\<lparr>tq_len := 0\<rparr>]"
proof (cases "tq_len (queues_of w ! i) = 0")
  case True
  then have "tx_flush D port i w = Some (0, w)" using i by (simp add: tx_flush_def Let_def)
  moreover have "(queues_of w ! i)\<lparr>tq_len := 0\<rparr> = queues_of w ! i" using True by simp
  ultimately show thesis using that [of 0 w] own by simp
next
  case False
  let ?q = "queues_of w ! i"
  let ?sent = "rte_eth_tx_burst D (bursts w) port (tq_id ?q) (tq_len ?q)"
  let ?ms = "rte_eth_tx_prepare D port (tq_id ?q) (map (the \<circ> mbufs w) (queued ?q))"
  note fl = tx_flush_ok [OF D own i refl False refl refl]
  let ?w' = "upd_queue i (?q\<lparr>tq_len := 0\<rparr>)
    (upd_stats (drop_tx_notsent_update (\<lambda>n. n + of_nat (unat (tq_len ?q) - unat ?sent)))
      (w\<lparr>bursts := Suc (bursts w),
         wire := wire w @ map (\<lambda>m. (port, tq_id ?q, m)) (take (unat ?sent) ?ms),
         mbufs := mbufs w |` (- set (queued ?q)),
         freed := freed w @ drop (unat ?sent) (queued ?q)\<rparr>))"
  have own': "shares ps ?w'" by (rule shares_flushed [OF own i refl]) simp_all
  have len: "length (queued ?q) = unat (tq_len ?q)"
    using shares_queue_ok [OF own i] by (simp add: queue_ok_def queued_def)
  have dom: "dom (mbufs ?w') = dom (mbufs w) - set (queued ?q)" by (auto simp: upd_queue_def upd_stats_def)
  have "packets ?w' = packets w" if "finite (dom (mbufs w))"
  proof -
    have "card (dom (mbufs w) - set (queued ?q)) + length (queued ?q) = card (dom (mbufs w))"
      using that queued_live [OF own i] distinct_card [of "queued ?q"] card_mono [of "dom (mbufs w)" "set (queued ?q)"]
      by (simp add: card_Diff_subset)
    moreover have "?sent \<le> tq_len ?q" "length ?ms = length (queued ?q)" using D by (auto simp: dpdk_ok_def)
    ultimately show ?thesis
      using len unfolding packets_def dom by (simp add: word_le_nat_alt upd_queue_def upd_stats_def)
  qed
  moreover have "\<forall>q \<in> set ps. q \<notin> set (queued ?q)"
    using own i by (auto simp: shares_def all_queued_split)
  ultimately have "evolves ps w ?w'"
    using len dom by (simp add: evolves_def drops_tx_notsent upd_queue_def upd_stats_def)
  with that [OF fl own'] show thesis by simp
qed

text \<open>The packet as it waits in the queue.\<close>

definition tx_mark :: "rte_mbuf \<Rightarrow> rte_mbuf" where
  "tx_mark m = (if vlan_tci m \<noteq> 0 then m\<lparr>ol_flags := ol_flags m OR PKT_TX_VLAN_PKT\<rparr> else m)
     \<lparr>l2_len := sizeof_ether_hdr, l3_len := sizeof_ipv4_hdr\<rparr>"

definition enqueue :: "ptr \<Rightarrow> tx_queue \<Rightarrow> tx_queue" where
  "enqueue p q = q\<lparr>tq_pkts := (tq_pkts q)[unat (tq_len q) := p], tq_len := tq_len q + 1\<rparr>"

lemma unat_Suc_small: "unat (x :: u16) < 32 \<Longrightarrow> unat (x + 1) = unat x + 1"
  by (simp add: unat_word_ariths)

lemma queued_enqueue:
  "queue_ok q \<Longrightarrow> unat (tq_len q) < 32 \<Longrightarrow> queued (enqueue p q) = queued q @ [p]"
  by (simp add: queue_ok_def queued_def enqueue_def unat_Suc_small take_Suc_conv_app_nth)

lemma queue_ok_enqueue: "queue_ok q \<Longrightarrow> unat (tq_len q) < 32 \<Longrightarrow> queue_ok (enqueue p q)"
  by (simp add: queue_ok_def enqueue_def unat_Suc_small)

definition enqueued :: "ptr \<Rightarrow> rte_mbuf \<Rightarrow> nat \<Rightarrow> world \<Rightarrow> world" where
  "enqueued p m i w = upd_queue i (enqueue p (queues_of w ! i)) (set_pkt p (tx_mark m) w)"

lemma tx_send_eq:
  assumes m: "mbufs w p = Some m" and i: "i < length (queues_of w)"
    and q: "queue_ok (queues_of w ! i)" "unat (tq_len (queues_of w ! i)) < 32"
  shows "tx_send D p port i w =
    (if unat (tq_len (queues_of w ! i)) + 1 = 32 then tx_flush D port i (enqueued p m i w)
     else Some (0, enqueued p m i w))"
proof -
  have "32 \<le> unat (tq_len (queues_of w ! i)) + 1 \<longleftrightarrow> unat (tq_len (queues_of w ! i)) + 1 = 32"
    using q by auto
  then show ?thesis
    unfolding tx_send_def using m i q
    by (simp add: Let_def enqueued_def enqueue_def tx_mark_def unat_Suc_small queue_ok_def del: One_nat_def add_Suc_right)
qed

lemma shares_enqueued:
  assumes own: "owns (p # ps) w" and i: "i < length (queues_of w)"
  shows "shares ps (enqueued p m i w)"
proof -
  let ?q = "queues_of w ! i"
  let ?a = "concat (map queued (take i (queues_of w)))"
  let ?b = "concat (map queued (drop (Suc i) (queues_of w)))"
  have sh: "shares (p # ps) w" and len: "unat (tq_len ?q) < 32"
    using own i by (auto simp: owns_def has_room_def)
  have qok: "queue_ok ?q" using sh i by (rule shares_queue_ok)
  have ok: "\<forall>q \<in> set (queues_of (enqueued p m i w)). queue_ok q"
    using sh queue_ok_enqueue [OF qok len]
    by (auto simp: shares_def enqueued_def dest!: set_update_subset_insert [THEN subsetD])
  have new: "all_queued (enqueued p m i w) = ?a @ (queued ?q @ [p]) @ ?b"
    using i queued_enqueue [OF qok len] by (simp add: enqueued_def all_queued_update)
  have old: "all_queued w = ?a @ queued ?q @ ?b" using i by (simp add: all_queued_split)
  have "distinct ((p # ps) @ ?a @ queued ?q @ ?b)"
    and "dom (mbufs w) = set (p # ps) \<union> set (?a @ queued ?q @ ?b)"
    using sh unfolding shares_def old by blast+
  then show ?thesis unfolding shares_def new using ok by (auto simp: enqueued_def)
qed

lemma evolves_enqueued: "mbufs w p = Some m \<Longrightarrow> p \<notin> set ps \<Longrightarrow> evolves ps w (enqueued p m i w)"
  by (auto simp: evolves_def enqueued_def upd_queue_def packets_def insert_absorb domI)

lemma has_room_update:
  "has_room w \<Longrightarrow> queues_of w' = (queues_of w)[i := q] \<Longrightarrow> unat (tq_len q) < 32 \<Longrightarrow> has_room w'"
  by (auto simp: has_room_def dest!: set_update_subset_insert [THEN subsetD])

lemma tx_flush_owns:
  assumes D: "dpdk_ok D" and own: "owns ps w" and i: "i < length (queues_of w)"
  obtains sent w' where "tx_flush D port i w = Some (sent, w')" "owns ps w'" "evolves ps w w'"
    "queues_of w' = (queues_of w)[i := (queues_of w ! i)\<lparr>tq_len := 0\<rparr>]"
proof -
  have sh: "shares ps w" and room: "has_room w" using own by (auto simp: owns_def)
  obtain sent w' where fl: "tx_flush D port i w = Some (sent, w')" "shares ps w'" "evolves ps w w'"
    and q: "queues_of w' = (queues_of w)[i := (queues_of w ! i)\<lparr>tq_len := 0\<rparr>]"
    by (rule tx_flush_shares [OF D sh i])
  then have "owns ps w'" using has_room_update [OF room q] by (simp add: owns_def)
  with that fl q show thesis by blast
qed

lemma tx_send_owns:
  assumes D: "dpdk_ok D" and own: "owns (p # ps) w" and i: "i < length (queues_of w)"
  obtains sent w' where "tx_send D p port i w = Some (sent, w')" "owns ps w'" "evolves ps w w'"
proof -
  let ?q = "queues_of w ! i"
  obtain m where m: "mbufs w p = Some m" using owns_live [OF own] by auto
  let ?w = "enqueued p m i w"
  have q: "queue_ok ?q" "unat (tq_len ?q) < 32" and room: "has_room w"
    using own i by (auto simp: owns_def has_room_def shares_queue_ok)
  note eq = tx_send_eq [OF m i q] and sh = shares_enqueued [OF own i, of m]
  have qs: "queues_of ?w = (queues_of w)[i := enqueue p ?q]" by (simp add: enqueued_def)
  show thesis
  proof (cases "unat (tq_len ?q) + 1 = 32")
    case True
    obtain sent w' where fl: "tx_flush D port i ?w = Some (sent, w')" "shares ps w'" "evolves ps ?w w'"
      and q': "queues_of w' = (queues_of ?w)[i := (queues_of ?w ! i)\<lparr>tq_len := 0\<rparr>]"
      by (rule tx_flush_shares [OF D sh]) (use i qs in auto)
    have "queues_of w' = (queues_of w)[i := (enqueue p ?q)\<lparr>tq_len := 0\<rparr>]"
      using q' qs i by simp
    then have "owns ps w'" using has_room_update [OF room] fl by (simp add: owns_def)
    with that fl eq True show thesis by (metis evolves_enqueued [OF m owns_head [OF own]] evolves_trans)
  next
    case False
    then have "unat (tq_len (enqueue p ?q)) < 32" using q by (simp add: enqueue_def unat_Suc_small)
    then have "owns ps ?w" using has_room_update [OF room qs] sh by (simp add: owns_def)
    with that eq False show thesis by (simp add: evolves_enqueued [OF m owns_head [OF own]])
  qed
qed




section \<open>The interface of packet output\<close>

text \<open>
  What the packet handlers rely on: sending a packet in hand always returns, passes the
  packet on, and touches nothing else that the handlers depend on.
\<close>

locale packet_sink =
  fixes send :: "dpdk \<Rightarrow> ptr \<Rightarrow> u8 \<Rightarrow> nat \<Rightarrow> world \<Rightarrow> (u16 \<times> world) option"
  assumes send_owns: "dpdk_ok D \<Longrightarrow> owns (p # ps) w \<Longrightarrow> i < length (queues_of w) \<Longrightarrow>
    \<exists>n w'. send D p port i w = Some (n, w') \<and> owns ps w' \<and> evolves ps w w'"
begin

text \<open>A handler that forges a packet in place and sends it: the result is never negative.\<close>

lemma forge_and_send:
  assumes "dpdk_ok D" "owns (p # ps) w" "i < length (queues_of w)"
  shows "\<exists>n w'. send D p port i (set_pkt p m w) = Some (n, w') \<and> 0 \<le> uint n \<and>
    owns ps w' \<and> evolves ps w w'"
proof -
  have "owns (p # ps) (set_pkt p m w)" "i < length (queues_of (set_pkt p m w))"
    using assms by simp_all
  then obtain n w' where "send D p port i (set_pkt p m w) = Some (n, w')" "owns ps w'"
      "evolves ps (set_pkt p m w) w'"
    using send_owns assms(1) by blast
  moreover obtain m' where "mbufs w p = Some m'" using owns_live [OF assms(2)] by auto
  then have "evolves ps w (set_pkt p m w)" using owns_head [OF assms(2)] by (rule evolves_set_pkt)
  ultimately show ?thesis using evolves_trans by fastforce
qed

end

interpretation tx: packet_sink tx_send
  by unfold_locales (metis tx_send_owns)

section \<open>The queue as a batch\<close>

text \<open>
  The abstract view: a queue is the list of the packets that wait in it.  A new packet
  joins the end; the 32nd makes the whole batch leave, of which the NIC takes a prefix and
  the rest is dropped.
\<close>

definition pending :: "world \<Rightarrow> nat \<Rightarrow> rte_mbuf list" where
  "pending w i = map (the \<circ> mbufs w) (queued (queues_of w ! i))"

record batch_result =
  sent_out :: "rte_mbuf list"
  still_pending :: "rte_mbuf list"
  n_dropped :: nat

definition batch_put :: "(rte_mbuf list \<Rightarrow> rte_mbuf list) \<Rightarrow> (nat \<Rightarrow> nat) \<Rightarrow> rte_mbuf \<Rightarrow>
    rte_mbuf list \<Rightarrow> batch_result" where
  "batch_put prepare accept m ms =
    (if length (ms @ [m]) < MAX_TX_BURST
     then \<lparr>sent_out = [], still_pending = ms @ [m], n_dropped = 0\<rparr>
     else let k = accept (length (ms @ [m]))
          in \<lparr>sent_out = take k (prepare (ms @ [m])), still_pending = [],
              n_dropped = length (ms @ [m]) - k\<rparr>)"

lemma distinct_concat_nth:
  "distinct (concat xss) \<Longrightarrow> i < length xss \<Longrightarrow> j < length xss \<Longrightarrow> i \<noteq> j \<Longrightarrow>
    set (xss ! i) \<inter> set (xss ! j) = {}"
proof (induction xss arbitrary: i j)
  case (Cons xs xss)
  have "k < length xss \<Longrightarrow> set xs \<inter> set (xss ! k) = {}" for k
    using Cons.prems(1) nth_mem [of k xss]
    unfolding concat.simps distinct_append set_concat by blast
  with Cons show ?case by (cases i; cases j) (simp_all add: Int_commute)
qed simp

lemma queued_disjoint:
  assumes "shares ps w" "i < length (queues_of w)" "j < length (queues_of w)" "i \<noteq> j"
  shows "set (queued (queues_of w ! i)) \<inter> set (queued (queues_of w ! j)) = {}"
  using assms distinct_concat_nth [of "map queued (queues_of w)" i j]
  by (simp add: shares_def all_queued_def)

lemma length_pending: "shares ps w \<Longrightarrow> i < length (queues_of w) \<Longrightarrow>
    length (pending w i) = unat (tq_len (queues_of w ! i))"
  using shares_queue_ok [of ps w i] by (simp add: pending_def queued_def queue_ok_def)

lemma pending_enqueued:
  assumes own: "owns (p # ps) w" and i: "i < length (queues_of w)"
  shows "pending (enqueued p m i w) i = pending w i @ [tx_mark m]"
    and "j < length (queues_of w) \<Longrightarrow> j \<noteq> i \<Longrightarrow> pending (enqueued p m i w) j = pending w j"
proof -
  have q: "queue_ok (queues_of w ! i)" "unat (tq_len (queues_of w ! i)) < 32"
    using own i by (auto simp: owns_def has_room_def shares_queue_ok)
  have "p \<notin> set (all_queued w)" using own by (simp add: owns_def shares_def)
  then have np: "j < length (queues_of w) \<Longrightarrow> p \<notin> set (queued (queues_of w ! j))" for j
    by (auto simp: all_queued_def)
  show "pending (enqueued p m i w) i = pending w i @ [tx_mark m]"
    using i q np [OF i] by (auto simp: pending_def enqueued_def queued_enqueue)
  show "pending (enqueued p m i w) j = pending w j" if "j < length (queues_of w)" "j \<noteq> i"
    using that np [of j] by (auto simp: pending_def enqueued_def)
qed

lemma pending_flushed:
  assumes "shares ps w" "i < length (queues_of w)"
    and "mbufs w' = mbufs w |` (- set (queued (queues_of w ! i)))"
    and "queues_of w' = (queues_of w)[i := (queues_of w ! i)\<lparr>tq_len := 0\<rparr>]"
  shows "pending w' i = []"
    and "j < length (queues_of w) \<Longrightarrow> j \<noteq> i \<Longrightarrow> pending w' j = pending w j"
  using assms queued_disjoint [OF assms(1,2), of j]
  by (auto simp: pending_def queued_def restrict_map_def)

lemma tx_flush_effect:
  assumes D: "dpdk_ok D" and sh: "shares ps w" and i: "i < length (queues_of w)"
    and ne: "tq_len (queues_of w ! i) \<noteq> 0"
    and qid: "qid = tq_id (queues_of w ! i)"
    and sent: "sent = rte_eth_tx_burst D (bursts w) port qid (tq_len (queues_of w ! i))"
  shows "\<exists>w'. tx_flush D port i w = Some (sent, w') \<and>
    wire w' = wire w @ map (\<lambda>m. (port, qid, m)) (take (unat sent)
      (rte_eth_tx_prepare D port qid (pending w i))) \<and>
    drop_tx_notsent (stats_of w') =
      drop_tx_notsent (stats_of w) + of_nat (unat (tq_len (queues_of w ! i)) - unat sent) \<and>
    length (freed w') = length (freed w) + (unat (tq_len (queues_of w ! i)) - unat sent) \<and>
    pending w' i = [] \<and> (\<forall>j < length (queues_of w). j \<noteq> i \<longrightarrow> pending w' j = pending w j)"
proof -
  have len: "length (queued (queues_of w ! i)) = unat (tq_len (queues_of w ! i))"
    using shares_queue_ok [OF sh i] by (simp add: queued_def queue_ok_def)
  obtain w' where w': "tx_flush D port i w = Some (sent, w')"
    "mbufs w' = mbufs w |` (- set (queued (queues_of w ! i)))"
    "queues_of w' = (queues_of w)[i := (queues_of w ! i)\<lparr>tq_len := 0\<rparr>]"
    "wire w' = wire w @ map (\<lambda>m. (port, qid, m)) (take (unat sent)
      (rte_eth_tx_prepare D port qid (pending w i)))"
    "drop_tx_notsent (stats_of w') =
      drop_tx_notsent (stats_of w) + of_nat (unat (tq_len (queues_of w ! i)) - unat sent)"
    "length (freed w') = length (freed w) + (unat (tq_len (queues_of w ! i)) - unat sent)"
    using tx_flush_ok [OF D sh i refl ne refl refl, of port] len by (simp add: sent qid pending_def)
  with pending_flushed [OF sh i w'(2,3)] show ?thesis by blast
qed

text \<open>
  C18. Refinement of the batch: \<open>tx_send\<close> does to the queue it is given what
  \<open>batch_put\<close> says, in order: the packet, with its offload fields set, joins the packets
  that wait; the 32nd sends the batch, of which the NIC's share goes to the wire in the order
  of arrival and the rest is freed and counted.  The other queues of the worker keep their
  packets.
\<close>

theorem tx_send_refines_batch:
  assumes D: "dpdk_ok D" and own: "owns (p # ps) w" and m: "mbufs w p = Some m"
    and i: "i < length (queues_of w)" and qid: "qid = tq_id (queues_of w ! i)"
    and r: "r = batch_put (rte_eth_tx_prepare D port qid)
      (\<lambda>n. unat (rte_eth_tx_burst D (bursts w) port qid (of_nat n))) (tx_mark m) (pending w i)"
  shows "\<exists>sent w'. tx_send D p port i w = Some (sent, w') \<and>
    pending w' i = still_pending r \<and>
    wire w' = wire w @ map (\<lambda>m. (port, qid, m)) (sent_out r) \<and>
    drop_tx_notsent (stats_of w') = drop_tx_notsent (stats_of w) + of_nat (n_dropped r) \<and>
    length (freed w') = length (freed w) + n_dropped r \<and>
    (\<forall>j < length (queues_of w). j \<noteq> i \<longrightarrow> pending w' j = pending w j)"
proof -
  let ?q = "queues_of w ! i" and ?w = "enqueued p m i w"
  have q: "queue_ok ?q" "unat (tq_len ?q) < 32" and sh: "shares (p # ps) w"
    using own i by (auto simp: owns_def has_room_def shares_queue_ok)
  note eq = tx_send_eq [OF m i q, of D port] and pend = pending_enqueued [OF own i, where m = m]
  have n: "length (pending w i) = unat (tq_len ?q)" by (rule length_pending [OF sh i])
  show ?thesis
  proof (cases "unat (tq_len ?q) + 1 = 32")
    case False
    then have "r = \<lparr>sent_out = [], still_pending = pending w i @ [tx_mark m], n_dropped = 0\<rparr>"
      using q n by (simp add: r batch_put_def)
    then show ?thesis using eq False pend by (simp add: enqueued_def)
  next
    case True
    have sh': "shares ps ?w" and i': "i < length (queues_of ?w)"
      using shares_enqueued [OF own i] i by (auto simp: enqueued_def)
    have len: "unat (tq_len (queues_of ?w ! i)) = 32" and id: "tq_id (queues_of ?w ! i) = qid"
      using True q i by (simp_all add: enqueued_def enqueue_def unat_Suc_small qid)
    then have len': "tq_len (queues_of ?w ! i) = 32" by (simp add: word_unat_eq_iff)
    have b: "bursts ?w = bursts w" by (simp add: enqueued_def)
    let ?sent = "rte_eth_tx_burst D (bursts w) port qid 32"
    have r': "r = \<lparr>sent_out = take (unat ?sent) (rte_eth_tx_prepare D port qid (pending w i @ [tx_mark m])),
        still_pending = [], n_dropped = 32 - unat ?sent\<rparr>"
      using True n by (simp add: r batch_put_def Let_def)
    obtain w' where w': "tx_flush D port i ?w = Some (?sent, w')"
        "wire w' = wire ?w @ map (\<lambda>m. (port, qid, m)) (take (unat ?sent)
           (rte_eth_tx_prepare D port qid (pending ?w i)))"
        "drop_tx_notsent (stats_of w') = drop_tx_notsent (stats_of ?w) + of_nat (32 - unat ?sent)"
        "length (freed w') = length (freed ?w) + (32 - unat ?sent)"
        "pending w' i = []" "\<forall>j < length (queues_of ?w). j \<noteq> i \<longrightarrow> pending w' j = pending ?w j"
      using tx_flush_effect [OF D sh' i' _ id [symmetric] refl, of port] unfolding len' b by auto
    show ?thesis
      using w' eq True pend by (auto simp: r' enqueued_def)
  qed
qed


text \<open>A worker whose first queue holds 31 packets, and which has one more in hand.\<close>

definition full_queue :: tx_queue where
  "full_queue = \<lparr>tq_pkts = [1..<32] @ [0], tq_id = 0, tq_len = 31\<rparr>"

definition full_world :: world where
  "full_world = upd_queue 0 full_queue (world0 config0 (replicate 32 (mbuf_of [])))"

lemma queued_full_queue: "queued full_queue = [1..<32]"
  by (simp add: queued_def full_queue_def)

lemma full_world_queues: "queues_of full_world = full_queue # replicate 15 empty_queue"
proof -
  have "replicate 16 empty_queue = empty_queue # replicate 15 empty_queue"
    by (simp flip: replicate_Suc)
  then show ?thesis by (simp add: full_world_def)
qed

lemma all_queued_full_world: "all_queued full_world = [1..<32]"
proof -
  have "queued empty_queue = []" by (simp add: queued_def empty_queue_def)
  then show ?thesis
    by (simp add: all_queued_def full_world_queues queued_full_queue map_replicate_const
        concat_replicate_trivial del: upt_rec_numeral)
qed

lemma owns_full_world: "owns [0] full_world"
proof -
  have "dom (mbufs full_world) = {..<32}" by (auto simp: full_world_def world0_def dom_def)
  moreover have "{..<32} = insert 0 {1..<32::nat}" by auto
  moreover have "queue_ok q \<and> unat (tq_len q) < 32" if "q \<in> set (queues_of full_world)" for q
    using that by (auto simp: full_world_queues queue_ok_def full_queue_def empty_queue_def)
  ultimately show ?thesis
    by (auto simp: owns_def shares_def has_room_def all_queued_full_world simp del: upt_rec_numeral)
qed

theorem tx_send_refines_batch_witness:
  "\<exists>sent w'. tx_send dpdk0 0 0 0 full_world = Some (sent, w') \<and> pending w' 0 = [] \<and>
     length (wire w') = 20 \<and> drop_tx_notsent (stats_of w') = 12"
proof -
  have m: "mbufs full_world 0 = Some (mbuf_of [])" and i: "0 < length (queues_of full_world)"
    by (simp_all add: full_world_def)
  have n: "length (pending full_world 0) = 31" "tq_id (queues_of full_world ! 0) = 0"
    by (simp_all add: pending_def full_world_queues queued_full_queue) (simp add: full_queue_def)
  have z: "wire full_world = []" "stats_of full_world = stats0" by (simp_all add: full_world_def)
  show ?thesis
    using tx_send_refines_batch [OF dpdk0_ok(1) owns_full_world m i refl refl, of 0] n z
    by (auto simp: batch_put_def Let_def dpdk0_def stats0_def)
qed

end
