(* ===== verification/Actions.thy ===== *)
theory Actions
  imports Tx_Queue
begin

text \<open>
  The functions a rule may call: the conditions of \<open>src/src/cond_network.c\<close> and
  \<open>src/src/cond_vlan.c\<close>, and the actions of \<open>src/src/action_drop.c\<close>,
  \<open>src/src/action_log.c\<close>, \<open>src/src/action_out.c\<close> and the packet
  rewriting of \<open>src/src/action_nat.c\<close>.

  A pointer into the packet (\<open>uint32_t *address\<close>) is the offset of the field.  A
  function yields its return code and the new world.
\<close>

section \<open>Conditions\<close>

definition ipv4_in_network :: "u32 \<Rightarrow> ipv4_network \<Rightarrow> bool option" where
  "ipv4_in_network ip network = do {
     let sh = 32 - net_mask network;
     guard (unat sh < 32);
     let m = push_bit (unat sh) (NOT 0);
     Some (ip AND m = net_ip network AND m) }"

definition cond_ipv4_dst_in_network ::
  "ipv4_network \<Rightarrow> ptr \<Rightarrow> u8 \<Rightarrow> world \<Rightarrow> (int \<times> world) option" where
  "cond_ipv4_dst_in_network network p port w = do {
     a \<leftarrow> pkt_ld32 p (ipv4_header + ip_dst_addr) w;
     r \<leftarrow> ipv4_in_network (bswap32 a) network;
     Some (of_bool r, w) }"

definition cond_ipv4_src_in_network ::
  "ipv4_network \<Rightarrow> ptr \<Rightarrow> u8 \<Rightarrow> world \<Rightarrow> (int \<times> world) option" where
  "cond_ipv4_src_in_network network p port w = do {
     a \<leftarrow> pkt_ld32 p (ipv4_header + ip_src_addr) w;
     r \<leftarrow> ipv4_in_network (bswap32 a) network;
     Some (of_bool r, w) }"

definition cond_vlan :: "int \<Rightarrow> ptr \<Rightarrow> u8 \<Rightarrow> world \<Rightarrow> (int \<times> world) option" where
  "cond_vlan vlan p port w = do {
     m \<leftarrow> mbufs w p;
     Some (of_bool (VLAN_ID m = vlan), w) }"

section \<open>Actions that do not rewrite addresses\<close>

definition action_drop :: "ptr \<Rightarrow> u8 \<Rightarrow> world \<Rightarrow> (int \<times> world) option" where
  "action_drop p port w = do {
     let w = upd_stats (drop_nat_condition_update (\<lambda>n. n + 1)) w;
     w \<leftarrow> rte_pktmbuf_free p w;
     Some (- 1, w) }"

definition IPPROTO_ICMP :: u8 where "IPPROTO_ICMP = 1"
definition IPPROTO_TCP :: u8 where "IPPROTO_TCP = 6"
definition IPPROTO_UDP :: u8 where "IPPROTO_UDP = 17"
definition IPPROTO_UDPLITE :: u8 where "IPPROTO_UDPLITE = 136"

text \<open>
  The log lines are not modelled; the fields they read are, since they are read from the
  packet.
\<close>

definition action_print :: "ptr \<Rightarrow> u8 \<Rightarrow> world \<Rightarrow> (int \<times> world) option" where
  "action_print p port w = do {
     src_addr \<leftarrow> pkt_ld32 p (ipv4_header + ip_src_addr) w;
     dst_addr \<leftarrow> pkt_ld32 p (ipv4_header + ip_dst_addr) w;
     next_proto_id \<leftarrow> pkt_ld8 p (ipv4_header + ip_next_proto_id) w;
     (if next_proto_id = IPPROTO_TCP then do {
        src_port \<leftarrow> pkt_ld16 p tcp_header w;
        dst_port \<leftarrow> pkt_ld16 p (tcp_header + 2) w;
        tcp_flags \<leftarrow> pkt_ld8 p (tcp_header + 13) w;
        Some () }
      else if next_proto_id = IPPROTO_UDP then do {
        src_port \<leftarrow> pkt_ld16 p udp_header w;
        dst_port \<leftarrow> pkt_ld16 p (udp_header + 2) w;
        Some () }
      else if next_proto_id = IPPROTO_ICMP then do {
        icmp_type \<leftarrow> pkt_ld8 p icmp_header w;
        icmp_code \<leftarrow> pkt_ld8 p (icmp_header + 1) w;
        Some () }
      else Some ());
     Some (0, w) }"

definition action_out :: "dpdk \<Rightarrow> out_packet \<Rightarrow> ptr \<Rightarrow> u8 \<Rightarrow> world \<Rightarrow> (int \<times> world) option" where
  "action_out D out p port w = do {
     w \<leftarrow> pkt_stn p (eth_header + eth_s_addr) (rte_eth_macaddr_get D port) w;
     w \<leftarrow> pkt_stn p (eth_header + eth_d_addr) (next_hop out) w;
     w \<leftarrow> pkt_or_flags p PKT_TX_IPV4 w;
     w \<leftarrow> upd_pkt p (\<lambda>m. Some (m\<lparr>vlan_tci := of_int (out_vlan out)\<rparr>)) w;
     (sent, w) \<leftarrow> tx_send D p (out_port out) (unat (out_port out)) w;
     Some (- 1, w) }"

section \<open>Address translation\<close>

definition IPV4_SRC_ADDR :: int where "IPV4_SRC_ADDR = 0"
definition IPV4_DST_ADDR :: int where "IPV4_DST_ADDR = 1"

definition ICMP_DEST_UNREACH :: u8 where "ICMP_DEST_UNREACH = 3"
definition ICMP_TIME_EXCEEDED :: u8 where "ICMP_TIME_EXCEEDED = 11"
definition ICMP_PARAMETERPROB :: u8 where "ICMP_PARAMETERPROB = 12"

text \<open>The call \<open>cksum_update(&field, from, to)\<close> on a field of the packet.\<close>

definition pkt_cksum_update :: "ptr \<Rightarrow> nat \<Rightarrow> u32 \<Rightarrow> u32 \<Rightarrow> world \<Rightarrow> world option" where
  "pkt_cksum_update p off from to w = do {
     csum \<leftarrow> pkt_ld16 p off w;
     pkt_st16 p off (cksum_update csum from to) w }"

definition lookup_and_rewrite ::
  "ptr \<Rightarrow> nat_lookup \<Rightarrow> u32 \<Rightarrow> nat \<Rightarrow> world \<Rightarrow> (int \<times> world) option" where
  "lookup_and_rewrite p lookup_table ip field w =
    (case nat_lookup_ip lookup_table ip of
       None \<Rightarrow> do { w \<leftarrow> rte_pktmbuf_free p w; Some (- 1, w) }
     | Some v \<Rightarrow> do { w \<leftarrow> pkt_st32 p field v w; Some (0, w) })"

text \<open>
  The length test is the one of the code: the difference is computed at the width of
  \<open>size_t\<close>, 64 bits and unsigned.
\<close>

definition icmp_nat_handle :: "ptr \<Rightarrow> int \<Rightarrow> world \<Rightarrow> (int \<times> world) option" where
  "icmp_nat_handle p inner_ipv4_to_rewrite w = do {
     icmp_type \<leftarrow> pkt_ld8 p (icmp_header + icmp_icmp_type) w;
     if icmp_type \<noteq> ICMP_DEST_UNREACH \<and> icmp_type \<noteq> ICMP_TIME_EXCEEDED \<and>
        icmp_type \<noteq> ICMP_PARAMETERPROB then Some (0, w)
     else do {
       total_length \<leftarrow> pkt_ld16 p (ipv4_header + ip_total_length) w;
       if ucast (bswap16 total_length) - of_nat sizeof_ipv4_hdr - of_nat sizeof_icmp_hdr
          - of_nat sizeof_ipv4_hdr < (0 :: u64) then Some (- 1, w)
       else do {
         let inner_ipv4_hdr = icmp_header + sizeof_icmp_hdr;
         let inner_ipv4_address = inner_ipv4_hdr +
           (if inner_ipv4_to_rewrite = IPV4_SRC_ADDR then ip_src_addr else ip_dst_addr);
         old_ipv4_cksum \<leftarrow> pkt_ld16 p (inner_ipv4_hdr + ip_hdr_checksum) w;
         old_ipv4_address \<leftarrow> pkt_ld32 p inner_ipv4_address w;
         (r, w) \<leftarrow> lookup_and_rewrite p (nat_lookup (config_of w)) (bswap32 old_ipv4_address)
           inner_ipv4_address w;
         if r < 0 then Some (- 1, upd_stats (drop_no_rule_update (\<lambda>n. n + 1)) w)
         else do {
           new_ipv4_address \<leftarrow> pkt_ld32 p inner_ipv4_address w;
           w \<leftarrow> pkt_cksum_update p (inner_ipv4_hdr + ip_hdr_checksum)
             old_ipv4_address new_ipv4_address w;
           new_ipv4_cksum \<leftarrow> pkt_ld16 p (inner_ipv4_hdr + ip_hdr_checksum) w;
           w \<leftarrow> pkt_cksum_update p (icmp_header + icmp_icmp_cksum)
             (ucast old_ipv4_cksum) (ucast new_ipv4_cksum) w;
           w \<leftarrow> pkt_cksum_update p (icmp_header + icmp_icmp_cksum)
             old_ipv4_address new_ipv4_address w;
           Some (0, w) } } } }"

definition action_nat_rewrite_impl :: "ptr \<Rightarrow> u8 \<Rightarrow> nat \<Rightarrow> int \<Rightarrow> world \<Rightarrow> (int \<times> world) option" where
  "action_nat_rewrite_impl p port address inner_ipv4_to_rewrite w = do {
     save_ipv4 \<leftarrow> pkt_ld32 p address w;
     (r, w) \<leftarrow> lookup_and_rewrite p (nat_lookup (config_of w)) (bswap32 save_ipv4) address w;
     if r < 0 then Some (- 1, upd_stats (drop_no_rule_update (\<lambda>n. n + 1)) w)
     else do {
       new_ipv4 \<leftarrow> pkt_ld32 p address w;
       w \<leftarrow> pkt_cksum_update p (ipv4_header + ip_hdr_checksum) save_ipv4 new_ipv4 w;
       fragment_offset \<leftarrow> pkt_ld16 p (ipv4_header + ip_fragment_offset) w;
       next_proto_id \<leftarrow> pkt_ld8 p (ipv4_header + ip_next_proto_id) w;
       let proto = (if NATA_IS_FRAG fragment_offset then 0 else next_proto_id);
       if proto = IPPROTO_TCP then
         if NATA_IS_FIRST_FRAG fragment_offset then do {
           w \<leftarrow> pkt_cksum_update p (tcp_header + tcp_cksum) save_ipv4 new_ipv4 w;
           Some (0, w) }
         else do {
           w \<leftarrow> pkt_st16 p (tcp_header + tcp_cksum) 0 w;
           w \<leftarrow> pkt_or_flags p PKT_TX_TCP_CKSUM w;
           Some (0, w) }
       else if proto = IPPROTO_UDPLITE \<or> proto = IPPROTO_UDP then do {
         dgram_cksum \<leftarrow> pkt_ld16 p (udp_header + udp_dgram_cksum) w;
         if dgram_cksum = 0 then Some (0, w)
         else if NATA_IS_FIRST_FRAG fragment_offset then do {
           w \<leftarrow> pkt_cksum_update p (udp_header + udp_dgram_cksum) save_ipv4 new_ipv4 w;
           Some (0, w) }
         else do {
           w \<leftarrow> pkt_st16 p (udp_header + udp_dgram_cksum) 0 w;
           w \<leftarrow> pkt_or_flags p PKT_TX_UDP_CKSUM w;
           Some (0, w) } }
       else if proto = IPPROTO_ICMP then icmp_nat_handle p inner_ipv4_to_rewrite w
       else Some (0, w) } }"

definition action_nat_rewrite :: "int \<Rightarrow> ptr \<Rightarrow> u8 \<Rightarrow> world \<Rightarrow> (int \<times> world) option" where
  "action_nat_rewrite field_to_rewrite p port w =
    (if field_to_rewrite = IPV4_SRC_ADDR
     then action_nat_rewrite_impl p port (ipv4_header + ip_src_addr) IPV4_DST_ADDR w
     else action_nat_rewrite_impl p port (ipv4_header + ip_dst_addr) IPV4_SRC_ADDR w)"

text \<open>The call through the function pointer of a node.\<close>

fun run_action :: "dpdk \<Rightarrow> action_fn \<Rightarrow> ptr \<Rightarrow> u8 \<Rightarrow> world \<Rightarrow> (int \<times> world) option" where
  "run_action D (Act_nat_rewrite field) p port w = action_nat_rewrite field p port w"
| "run_action D (Act_out out) p port w = action_out D out p port w"
| "run_action D Act_print p port w = action_print p port w"
| "run_action D Act_drop p port w = action_drop p port w"
| "run_action D (Cond_ipv4_src_in_network net) p port w = cond_ipv4_src_in_network net p port w"
| "run_action D (Cond_ipv4_dst_in_network net) p port w = cond_ipv4_dst_in_network net p port w"
| "run_action D (Cond_vlan vlan) p port w = cond_vlan vlan p port w"


section \<open>Fields of a region of the buffer\<close>

lemma rdn_wrn_in:
  assumes "i \<le> j" "j + length v \<le> i + n" "i + n \<le> length b"
  shows "rdn (wrn b j v) i n = wrn (rdn b i n) (j - i) v"
proof (rule nth_equalityI)
  show "length (rdn (wrn b j v) i n) = length (wrn (rdn b i n) (j - i) v)"
    using assms by (simp add: buf_simps)
  fix k assume "k < length (rdn (wrn b j v) i n)"
  then have k: "k < n" using assms by (simp add: buf_simps)
  have "rdn (wrn b j v) i n ! k = wrn b j v ! (i + k)"
    using assms k by (simp add: rdn_def buf_simps)
  moreover have "rdn b i n ! k = b ! (i + k)" using assms k by (simp add: rdn_def)
  ultimately show "rdn (wrn b j v) i n ! k = wrn (rdn b i n) (j - i) v ! k"
    using assms k by (auto simp: nth_wrn buf_simps add.commute)
qed

lemma rdn_wr_in [buf_simps]:
  "i \<le> j \<Longrightarrow> j + 2 \<le> i + n \<Longrightarrow> i + n \<le> length b \<Longrightarrow> rdn (wr16 b j v) i n = wr16 (rdn b i n) (j - i) v"
  "i \<le> j \<Longrightarrow> j + 4 \<le> i + n \<Longrightarrow> i + n \<le> length b \<Longrightarrow> rdn (wr32 b j x) i n = wr32 (rdn b i n) (j - i) x"
  by (simp_all add: wr16_def wr32_def rdn_wrn_in)

lemma rd_rdn [buf_simps]:
  "k + 2 \<le> n \<Longrightarrow> i + n \<le> length b \<Longrightarrow> rd16 (rdn b i n) k = rd16 b (i + k)"
  "k + 4 \<le> n \<Longrightarrow> i + n \<le> length b \<Longrightarrow> rd32 (rdn b i n) k = rd32 b (i + k)"
  by (simp_all add: rd16_def rd32_def rdn_def add.assoc)

section \<open>Checksums under rewriting\<close>

lemma wsum_cksum_update:
  assumes "even k" "k + 2 \<le> length b"
  shows "(wsum (wr16 b k (cksum_update (rd16 b k) f t)) + unat t) mod 65535 =
    (wsum b + unat f) mod 65535"
proof -
  let ?u = "cksum_update (rd16 b k) f t" and ?c = "unat (rd16 b k)"
  have "wsum (wr16 b k ?u) + unat t + ?c = (unat ?u + unat t) + wsum b"
    using wsum_wr16 [OF assms, of ?u] by simp
  then have "(wsum (wr16 b k ?u) + unat t + ?c) mod 65535 = ((unat ?u + unat t) + wsum b) mod 65535"
    by (rule arg_cong)
  also have "\<dots> = ((?c + unat f) + wsum b) mod 65535"
    using cksum_update_props(1) [of "rd16 b k" f t] by (simp only: mod_add_cancel)
  also have "\<dots> = (wsum b + unat f + ?c) mod 65535" by (simp add: ac_simps)
  finally show ?thesis by (simp only: mod_add_cancel)
qed

lemma wsum_nonzero32:
  assumes "even i" "i + 4 \<le> length b" "rd32 b i \<noteq> 0"
  shows "wsum b \<noteq> 0"
proof -
  have "rd16 b i \<noteq> 0 \<or> rd16 b (i + 2) \<noteq> 0"
  proof (rule ccontr)
    assume "\<not> ?thesis"
    then have "unat (rd32 b i) = 0" by (simp add: rd32_def rd16_def unat_le32 numeral_3_eq_3)
    with assms(3) show False by (simp add: unat_eq_zero)
  qed
  then show ?thesis using assms wsum_nonzero [of i b] wsum_nonzero [of "i + 2" b] by auto
qed

text \<open>
  The outer header: a nonzero address written at \<open>i\<close>, the checksum at \<open>k\<close> updated.
\<close>

lemma cksum_ok_address:
  assumes "cksum_ok b" "even i" "even k" "i + 4 \<le> length b" "k + 2 \<le> length b"
    "k + 2 \<le> i \<or> i + 4 \<le> k" "v \<noteq> 0"
  shows "cksum_ok (wr16 (wr32 b i v) k (cksum_update (rd16 b k) (rd32 b i) v))"
proof (rule cksum_ok_rewrite)
  let ?b = "wr16 (wr32 b i v) k (cksum_update (rd16 b k) (rd32 b i) v)"
  have "rd32 ?b i = v" "length ?b = length b" using assms by (auto simp: buf_simps)
  then show "wsum ?b \<noteq> 0" using assms wsum_nonzero32 [of i ?b] by simp
qed (use assms in auto)

text \<open>
  The ICMP message: its inner address at \<open>i\<close> and the inner checksum at \<open>k\<close> change, and the
  checksum at \<open>c\<close> is updated for both.
\<close>

lemma cksum_ok_icmp_error:
  assumes ok: "cksum_ok b" and ev: "even i" "even k" "even c"
    and len: "i + 4 \<le> length b" "k + 2 \<le> length b" "c + 2 \<le> length b"
    and dj: "k + 2 \<le> i" "c + 2 \<le> k" and v: "v \<noteq> 0"
    and b1: "b1 = wr32 b i v" and b2: "b2 = wr16 b1 k ck"
    and b3: "b3 = wr16 b2 c (cksum_update (rd16 b2 c) (ucast (rd16 b k)) (ucast ck))"
    and b4: "b4 = wr16 b3 c (cksum_update (rd16 b3 c) (rd32 b i) v)"
  shows "cksum_ok b4"
proof -
  have l: "length b1 = length b" "length b2 = length b" "length b3 = length b" "length b4 = length b"
    using len by (simp_all add: b1 b2 b3 b4 buf_simps)
  have k: "rd16 b1 k = rd16 b k" using len dj by (simp add: b1 buf_simps)
  have e1: "(wsum b1 + unat (rd32 b i)) mod 65535 = (wsum b + unat v) mod 65535"
    unfolding b1 by (rule wsum_wr32) (use ev len in auto)
  have e2: "wsum b2 + unat (rd16 b k) = wsum b1 + unat ck"
    unfolding b2 k [symmetric] by (rule wsum_wr16) (use ev len l in auto)
  have "(wsum b3 + unat ck) mod 65535 = (wsum b2 + unat (rd16 b k)) mod 65535"
    using wsum_cksum_update [of c b2 "ucast (rd16 b k)" "ucast ck"] ev len l by (simp add: b3)
  then have e3: "wsum b3 mod 65535 = wsum b1 mod 65535"
    unfolding e2 by (simp only: mod_add_cancel)
  have "(wsum b4 + unat v) mod 65535 = (wsum b3 + unat (rd32 b i)) mod 65535"
    unfolding b4 by (rule wsum_cksum_update) (use ev len l in auto)
  also have "\<dots> = (wsum b1 + unat (rd32 b i)) mod 65535"
    using e3 by (simp only: mod_add_cancel)
  also note e1
  finally have "wsum b4 mod 65535 = wsum b mod 65535" by (simp only: mod_add_cancel)
  moreover have "rd32 b4 i = v" using len dj l by (simp add: b4 b3 b2 b1 buf_simps)
  then have "wsum b4 \<noteq> 0" using wsum_nonzero32 [of i b4] ev len l v by simp
  ultimately show ?thesis using ok by (simp add: cksum_ok_wsum)
qed


section \<open>What the rewriting does\<close>

text \<open>
  The room every function here needs: the outer IPv4 header, the ICMP header and the
  inner IPv4 header (\<open>14 + 20 + 8 + 20\<close> bytes; TCP and UDP need less).
\<close>

definition roomy :: "ptr \<Rightarrow> world \<Rightarrow> bool" where
  "roomy p w \<longleftrightarrow> (\<forall>m. mbufs w p = Some m \<longrightarrow> 62 \<le> length (buf m))"

lemma roomy_set_pkt [simp]: "roomy p (set_pkt p m w) \<longleftrightarrow> 62 \<le> length (buf m)"
  by (simp add: roomy_def)

lemma roomy_upd_stats [simp]: "roomy p (upd_stats f w) = roomy p w"
  by (simp add: roomy_def)

text \<open>The packet after the outer address and the header checksum have been rewritten.\<close>

definition nat_outer :: "nat \<Rightarrow> u32 \<Rightarrow> bytes \<Rightarrow> bytes" where
  "nat_outer off v b = wr16 (wr32 b off v) 24 (cksum_update (rd16 b 24) (rd32 b off) v)"

text \<open>The same for the inner header of an ICMP error, and the ICMP checksum.\<close>

definition nat_inner :: "nat \<Rightarrow> u32 \<Rightarrow> bytes \<Rightarrow> bytes" where
  "nat_inner off v b =
    (let ck = cksum_update (rd16 b 52) (rd32 b off) v;
         b2 = wr16 (wr32 b off v) 52 ck;
         b3 = wr16 b2 36 (cksum_update (rd16 b2 36) (ucast (rd16 b 52)) (ucast ck))
     in wr16 b3 36 (cksum_update (rd16 b3 36) (rd32 b off) v))"

definition icmp_error_type :: "u8 \<Rightarrow> bool" where
  "icmp_error_type t \<longleftrightarrow> t = ICMP_DEST_UNREACH \<or> t = ICMP_TIME_EXCEEDED \<or> t = ICMP_PARAMETERPROB"

definition inner_off :: "int \<Rightarrow> nat" where
  "inner_off field = 42 + (if field = IPV4_SRC_ADDR then 12 else 16)"

definition dropped_no_rule :: "ptr \<Rightarrow> world \<Rightarrow> world" where
  "dropped_no_rule p w = upd_stats (drop_no_rule_update (\<lambda>n. n + 1))
     (w\<lparr>mbufs := (mbufs w)(p := None), freed := freed w @ [p]\<rparr>)"

lemma length_nat_outer: "off + 4 \<le> length b \<Longrightarrow> 26 \<le> length b \<Longrightarrow> length (nat_outer off v b) = length b"
  by (simp add: nat_outer_def buf_simps)

lemma length_nat_inner: "off + 4 \<le> length b \<Longrightarrow> 62 \<le> length b \<Longrightarrow> length (nat_inner off v b) = length b"
  by (simp add: nat_inner_def Let_def buf_simps)

lemma lookup_and_rewrite_simps [pkt_simps]:
  assumes "mbufs w p = Some m"
  shows "nat_lookup_ip t ip = None \<Longrightarrow> lookup_and_rewrite p t ip field w =
      Some (- 1, w\<lparr>mbufs := (mbufs w)(p := None), freed := freed w @ [p]\<rparr>)"
    and "nat_lookup_ip t ip = Some v \<Longrightarrow> field + 4 \<le> length (buf m) \<Longrightarrow>
      lookup_and_rewrite p t ip field w = Some (0, set_pkt p (m\<lparr>buf := wr32 (buf m) field v\<rparr>) w)"
  using assms by (simp_all add: lookup_and_rewrite_def pkt_simps)

lemma pkt_cksum_update_simps [pkt_simps]:
  "mbufs w p = Some m \<Longrightarrow> off + 2 \<le> length (buf m) \<Longrightarrow> pkt_cksum_update p off f t w =
    Some (set_pkt p (m\<lparr>buf := wr16 (buf m) off (cksum_update (rd16 (buf m) off) f t)\<rparr>) w)"
  by (simp add: pkt_cksum_update_def pkt_simps buf_simps)

lemma icmp_nat_handle_eq:
  assumes m: "mbufs w p = Some m" and len: "62 \<le> length (buf m)"
  shows "icmp_nat_handle p field w =
    (if icmp_error_type (buf m ! 34) then
       (case nat_lookup_ip (nat_lookup (config_of w)) (bswap32 (rd32 (buf m) (inner_off field))) of
          None \<Rightarrow> Some (- 1, dropped_no_rule p w)
        | Some v \<Rightarrow> Some (0, set_pkt p (m\<lparr>buf := nat_inner (inner_off field) v (buf m)\<rparr>) w))
     else Some (0, w))"
proof (cases "icmp_error_type (buf m ! 34)")
  case False
  then show ?thesis using m len
    by (simp add: icmp_nat_handle_def icmp_error_type_def pkt_simps buf_simps)
next
  case True
  show ?thesis
  proof (cases "nat_lookup_ip (nat_lookup (config_of w)) (bswap32 (rd32 (buf m) (inner_off field)))")
    case None
    then show ?thesis using True m len
      by (auto simp: icmp_nat_handle_def icmp_error_type_def pkt_simps buf_simps inner_off_def
          dropped_no_rule_def Let_def)
  next
    case (Some v)
    then show ?thesis using True m len
      by (auto simp: icmp_nat_handle_def icmp_error_type_def pkt_simps buf_simps inner_off_def
          nat_inner_def Let_def)
  qed
qed


text \<open>The TCP or UDP checksum: updated in a first fragment, else left to the NIC.\<close>

definition l4_proto :: "bytes \<Rightarrow> u8" where
  "l4_proto b = (if NATA_IS_FRAG (rd16 b 20) then 0 else b ! 23)"

definition nat_l4 :: "u32 \<Rightarrow> u32 \<Rightarrow> rte_mbuf \<Rightarrow> rte_mbuf" where
  "nat_l4 old v m =
    (let b = buf m; proto = l4_proto b;
         upd = (\<lambda>k fl. if NATA_IS_FIRST_FRAG (rd16 b 20)
                then m\<lparr>buf := wr16 b k (cksum_update (rd16 b k) old v)\<rparr>
                else m\<lparr>buf := wr16 b k 0, ol_flags := ol_flags m OR fl\<rparr>)
     in if proto = IPPROTO_TCP then upd 50 PKT_TX_TCP_CKSUM
        else if (proto = IPPROTO_UDPLITE \<or> proto = IPPROTO_UDP) \<and> rd16 b 40 \<noteq> 0
          then upd 40 PKT_TX_UDP_CKSUM
        else m)"

definition nat_off :: "int \<Rightarrow> nat" where
  "nat_off field = (if field = IPV4_SRC_ADDR then 26 else 30)"

lemma nat_off_cases: "nat_off field = 26 \<or> nat_off field = 30"
  by (simp add: nat_off_def)

lemma action_nat_rewrite_impl_miss:
  assumes "mbufs w p = Some m" "62 \<le> length (buf m)" "off = 26 \<or> off = 30"
    "nat_lookup_ip (nat_lookup (config_of w)) (bswap32 (rd32 (buf m) off)) = None"
  shows "action_nat_rewrite_impl p port off inner w = Some (- 1, dropped_no_rule p w)"
  using assms by (auto simp: action_nat_rewrite_impl_def pkt_simps buf_simps dropped_no_rule_def)

lemma proto_consts:
  "IPPROTO_TCP \<noteq> 0" "IPPROTO_UDP \<noteq> 0" "IPPROTO_UDPLITE \<noteq> 0" "IPPROTO_ICMP \<noteq> 0"
  "IPPROTO_TCP \<noteq> IPPROTO_UDP" "IPPROTO_TCP \<noteq> IPPROTO_UDPLITE" "IPPROTO_TCP \<noteq> IPPROTO_ICMP"
  "IPPROTO_UDP \<noteq> IPPROTO_ICMP" "IPPROTO_UDPLITE \<noteq> IPPROTO_ICMP"
  by (simp_all add: IPPROTO_TCP_def IPPROTO_UDP_def IPPROTO_UDPLITE_def IPPROTO_ICMP_def)

lemma nat_outer_frame:
  assumes "26 \<le> off" "off + 4 \<le> length b"
  shows "k < 24 \<Longrightarrow> nat_outer off v b ! k = b ! k"
    and "off + 4 \<le> k \<Longrightarrow> nat_outer off v b ! k = b ! k"
    and "k + 2 \<le> 24 \<or> off + 4 \<le> k \<Longrightarrow> rd16 (nat_outer off v b) k = rd16 b k"
    and "rd32 (nat_outer off v b) off = v"
  using assms by (auto simp: nat_outer_def buf_simps)

lemma action_nat_rewrite_impl_hit:
  assumes m: "mbufs w p = Some m" and len: "62 \<le> length (buf m)" and off: "off = 26 \<or> off = 30"
    and v: "nat_lookup_ip (nat_lookup (config_of w)) (bswap32 (rd32 (buf m) off)) = Some v"
    and m1: "m1 = m\<lparr>buf := nat_outer off v (buf m)\<rparr>"
  shows "action_nat_rewrite_impl p port off inner w =
    (if l4_proto (buf m) = IPPROTO_ICMP then icmp_nat_handle p inner (set_pkt p m1 w)
     else Some (0, set_pkt p (nat_l4 (rd32 (buf m) off) v m1) w))"
proof -
  let ?w = "set_pkt p m1 w" and ?old = "rd32 (buf m) off"
  let ?b = "wr16 (wr32 (buf m) off v) 24 (cksum_update (rd16 (buf m) 24) ?old v)"
  have b: "buf m1 = ?b" by (simp add: m1 nat_outer_def)
  have len1: "length (buf m1) = length (buf m)" using len off by (auto simp: m1 length_nat_outer)
  have fo: "rd16 (buf m1) 20 = rd16 (buf m) 20" "buf m1 ! 23 = buf m ! 23"
    using len off nat_outer_frame [of off "buf m"] by (auto simp: m1)
  have hit: "lookup_and_rewrite p (nat_lookup (config_of w)) (bswap32 ?old) off w =
      Some (0, set_pkt p (m\<lparr>buf := wr32 (buf m) off v\<rparr>) w)"
    using m v len off by (auto simp: pkt_simps)
  have upd: "pkt_cksum_update p 24 ?old v (set_pkt p (m\<lparr>buf := wr32 (buf m) off v\<rparr>) w) = Some ?w"
    using len off by (auto simp: pkt_simps buf_simps m1 nat_outer_def)
  have ld: "pkt_ld32 p off w = Some ?old"
      "pkt_ld32 p off (set_pkt p (m\<lparr>buf := wr32 (buf m) off v\<rparr>) w) = Some v"
    using m len off by (auto simp: pkt_simps buf_simps)
  have "action_nat_rewrite_impl p port off inner w =
      (let proto = l4_proto (buf m) in
       if proto = IPPROTO_TCP then
         if NATA_IS_FIRST_FRAG (rd16 (buf m) 20) then do {
           w \<leftarrow> pkt_cksum_update p 50 ?old v ?w; Some (0, w) }
         else do { w \<leftarrow> pkt_st16 p 50 0 ?w; w \<leftarrow> pkt_or_flags p PKT_TX_TCP_CKSUM w; Some (0, w) }
       else if proto = IPPROTO_UDPLITE \<or> proto = IPPROTO_UDP then do {
         dgram_cksum \<leftarrow> pkt_ld16 p 40 ?w;
         if dgram_cksum = 0 then Some (0, ?w)
         else if NATA_IS_FIRST_FRAG (rd16 (buf m) 20) then do {
           w \<leftarrow> pkt_cksum_update p 40 ?old v ?w; Some (0, w) }
         else do { w \<leftarrow> pkt_st16 p 40 0 ?w; w \<leftarrow> pkt_or_flags p PKT_TX_UDP_CKSUM w; Some (0, w) } }
       else if proto = IPPROTO_ICMP then icmp_nat_handle p inner ?w
       else Some (0, ?w))"
    using len len1 fo
    by (simp add: action_nat_rewrite_impl_def ld hit upd pkt_simps buf_simps l4_proto_def Let_def)
  also have "\<dots> = (if l4_proto (buf m) = IPPROTO_ICMP then icmp_nat_handle p inner ?w
      else Some (0, set_pkt p (nat_l4 ?old v m1) w))"
  proof -
    have "l4_proto (buf m1) = l4_proto (buf m)" by (simp add: l4_proto_def fo)
    then show ?thesis using len len1 fo proto_consts
      by (simp add: nat_l4_def Let_def pkt_simps buf_simps)
  qed
  finally show ?thesis .
qed


lemma nat_lookup_nonzero: "nat_lookup_ip t ip = Some v \<Longrightarrow> v \<noteq> 0"
  by (auto simp: nat_lookup_ip_def split: option.splits if_splits)

lemma nat_outer_header:
  assumes "34 \<le> length b" "off = 26 \<or> off = 30" "v \<noteq> 0" "cksum_ok (rdn b 14 20)"
  shows "cksum_ok (rdn (nat_outer off v b) 14 20)"
proof -
  have "rdn (nat_outer off v b) 14 20 = wr16 (wr32 (rdn b 14 20) (off - 14) v) 10
      (cksum_update (rd16 (rdn b 14 20) 10) (rd32 (rdn b 14 20) (off - 14)) v)"
    using assms by (auto simp: nat_outer_def buf_simps)
  then show ?thesis
    using cksum_ok_address [of "rdn b 14 20" "off - 14" 10 v] assms by (auto simp: buf_simps)
qed

lemma length_nat_l4: "52 \<le> length (buf m) \<Longrightarrow> length (buf (nat_l4 old v m)) = length (buf m)"
  by (simp add: nat_l4_def Let_def buf_simps)

lemma nat_l4_frame:
  assumes "52 \<le> length (buf m)"
  shows "k < 40 \<Longrightarrow> buf (nat_l4 old v m) ! k = buf m ! k"
    and "52 \<le> k \<Longrightarrow> buf (nat_l4 old v m) ! k = buf m ! k"
    and "j + 4 \<le> 40 \<Longrightarrow> rd32 (buf (nat_l4 old v m)) j = rd32 (buf m) j"
    and "j + n \<le> 40 \<Longrightarrow> rdn (buf (nat_l4 old v m)) j n = rdn (buf m) j n"
  using assms by (auto simp: nat_l4_def Let_def buf_simps)

lemma action_nat_rewrite_impl: "action_nat_rewrite field p port w =
    action_nat_rewrite_impl p port (nat_off field) (if field = IPV4_SRC_ADDR then IPV4_DST_ADDR else IPV4_SRC_ADDR) w"
  by (simp add: action_nat_rewrite_def nat_off_def)

lemma nat_rewrite_hit:
  assumes m: "mbufs w p = Some m" and len: "62 \<le> length (buf m)"
    and v: "nat_lookup_ip (nat_lookup (config_of w)) (bswap32 (rd32 (buf m) (nat_off field))) = Some v"
    and ck: "cksum_ok (rdn (buf m) 14 20)"
    and ne: "l4_proto (buf m) = IPPROTO_ICMP \<Longrightarrow> \<not> icmp_error_type (buf m ! 34)"
  shows "\<exists>w' m'. action_nat_rewrite field p port w = Some (0, w') \<and> mbufs w' p = Some m' \<and>
    rd32 (buf m') (nat_off field) = v \<and> cksum_ok (rdn (buf m') 14 20) \<and>
    length (buf m') = length (buf m) \<and>
    (\<forall>k < 34. k \<notin> {24, 25} \<union> {nat_off field..<nat_off field + 4} \<longrightarrow> buf m' ! k = buf m ! k)"
proof -
  let ?off = "nat_off field" and ?b = "nat_outer (nat_off field) v (buf m)"
  define m1 where "m1 = m\<lparr>buf := ?b\<rparr>"
  note off = nat_off_cases [of field]
  have len1: "length (buf m1) = length (buf m)" using len off by (auto simp: m1_def length_nat_outer)
  have ok: "cksum_ok (rdn ?b 14 20)"
    by (rule nat_outer_header) (use len off ck nat_lookup_nonzero [OF v] in auto)
  have same: "?b ! k = buf m ! k" if "k \<notin> {24, 25} \<union> {?off..<?off + 4}" for k
    using that len off by (auto simp: nat_outer_def nth_wr16 nth_wr32 buf_simps)
  have v1: "rd32 ?b ?off = v" using len off by (intro nat_outer_frame) auto
  have t: "buf m1 ! 34 = buf m ! 34" using same [of 34] off by (auto simp: m1_def)
  define m2 where "m2 = (if l4_proto (buf m) = IPPROTO_ICMP then m1
    else nat_l4 (rd32 (buf m) ?off) v m1)"
  have "action_nat_rewrite field p port w = Some (0, set_pkt p m2 w)"
    using action_nat_rewrite_impl_hit [OF m len off v m1_def, of port] ne t
      icmp_nat_handle_eq [of "set_pkt p m1 w" p m1] len len1
    by (simp add: action_nat_rewrite_impl m2_def)
  moreover have "rd32 (buf m2) ?off = v \<and> cksum_ok (rdn (buf m2) 14 20) \<and>
      length (buf m2) = length (buf m) \<and> (\<forall>k < 34. buf m2 ! k = ?b ! k)"
    using v1 ok len len1 off nat_l4_frame [of m1] length_nat_l4 [of m1]
    by (auto simp: m2_def m1_def)
  ultimately show ?thesis using same by auto
qed

text \<open>
  C4. Translation of a packet that is not an ICMP error: the address becomes the one
  the table gives for it, the IPv4 header is still accepted by a receiver (its incrementally
  updated checksum is right), no other byte of the Ethernet and IPv4 headers changes,
  and the rules go on.
\<close>

theorem nat_rewrite_packet:
  assumes m: "mbufs w p = Some m" and len: "62 \<le> length (buf m)"
    and v: "nat_lookup_ip (nat_lookup (config_of w)) (bswap32 (rd32 (buf m) (nat_off field))) = Some v"
    and ck: "cksum_ok (rdn (buf m) 14 20)"
    and ne: "l4_proto (buf m) = IPPROTO_ICMP \<Longrightarrow> \<not> icmp_error_type (buf m ! 34)"
  shows "\<exists>w' m'. action_nat_rewrite field p port w = Some (0, w') \<and> mbufs w' p = Some m' \<and>
    rd32 (buf m') (nat_off field) = v \<and> cksum_ok (rdn (buf m') 14 20) \<and>
    length (buf m') = length (buf m) \<and>
    (\<forall>k < 34. k \<notin> {24, 25} \<union> {nat_off field..<nat_off field + 4} \<longrightarrow> buf m' ! k = buf m ! k)"
  using assms by (rule nat_rewrite_hit)

lemma inner_off_cases: "inner_off field = 54 \<or> inner_off field = 58"
  by (simp add: inner_off_def)

lemma nat_inner_message:
  assumes len: "34 + n \<le> length b" "28 \<le> n" and off: "off = 54 \<or> off = 58" and v: "v \<noteq> 0"
    and ok: "cksum_ok (rdn b 34 n)"
  shows "cksum_ok (rdn (nat_inner off v b) 34 n)"
proof -
  let ?r = "rdn b 34 n" and ?i = "off - 34"
  define ck where "ck = cksum_update (rd16 b 52) (rd32 b off) v"
  define b2 where "b2 = wr16 (wr32 ?r ?i v) 18 ck"
  define b3 where "b3 = wr16 b2 2 (cksum_update (rd16 b2 2) (ucast (rd16 ?r 18)) (ucast ck))"
  have "rdn (nat_inner off v b) 34 n = wr16 b3 2 (cksum_update (rd16 b3 2) (rd32 ?r ?i) v)"
    using len off by (auto simp: nat_inner_def Let_def buf_simps b2_def b3_def ck_def)
  moreover have "cksum_ok (wr16 b3 2 (cksum_update (rd16 b3 2) (rd32 ?r ?i) v))"
    by (rule cksum_ok_icmp_error [OF ok _ _ _ _ _ _ _ _ v refl b2_def b3_def refl])
      (use len off in \<open>auto simp: buf_simps\<close>)
  ultimately show ?thesis by simp
qed

lemma nat_inner_header:
  assumes len: "62 \<le> length b" and off: "off = 54 \<or> off = 58" and v: "v \<noteq> 0"
    and ok: "cksum_ok (rdn b 42 20)"
  shows "cksum_ok (rdn (nat_inner off v b) 42 20)" "rd32 (nat_inner off v b) off = v"
proof -
  let ?r = "rdn b 42 20" and ?i = "off - 42"
  have "rdn (nat_inner off v b) 42 20 =
      wr16 (wr32 ?r ?i v) 10 (cksum_update (rd16 ?r 10) (rd32 ?r ?i) v)"
    using len off by (auto simp: nat_inner_def Let_def buf_simps)
  moreover have "cksum_ok (wr16 (wr32 ?r ?i v) 10 (cksum_update (rd16 ?r 10) (rd32 ?r ?i) v))"
    by (rule cksum_ok_address [OF ok]) (use len off v in \<open>auto simp: buf_simps\<close>)
  ultimately show "cksum_ok (rdn (nat_inner off v b) 42 20)" by simp
  show "rd32 (nat_inner off v b) off = v"
    using len off by (auto simp: nat_inner_def Let_def buf_simps)
qed

lemma nat_inner_frame:
  assumes "62 \<le> length b" "off = 54 \<or> off = 58"
  shows "k < 36 \<Longrightarrow> nat_inner off v b ! k = b ! k"
    "j + 4 \<le> 36 \<Longrightarrow> rd32 (nat_inner off v b) j = rd32 b j"
    "j + n \<le> 36 \<Longrightarrow> rdn (nat_inner off v b) j n = rdn b j n"
  using assms by (auto simp: nat_inner_def Let_def buf_simps)

text \<open>
  C6. Translation of an ICMP error: both the address of the packet and the opposite address
  of the packet quoted in it are translated, and the three checksums on the way, of the outer
  header, of the quoted header and of the ICMP message (of any length that holds the quoted
  header), are right afterwards if they were right before.
\<close>

theorem nat_rewrite_icmp_error:
  assumes m: "mbufs w p = Some m" and n: "34 + n \<le> length (buf m)" "28 \<le> n"
    and inner: "inner = inner_off (if field = IPV4_SRC_ADDR then IPV4_DST_ADDR else IPV4_SRC_ADDR)"
    and proto: "l4_proto (buf m) = IPPROTO_ICMP" and err: "icmp_error_type (buf m ! 34)"
    and v: "nat_lookup_ip (nat_lookup (config_of w)) (bswap32 (rd32 (buf m) (nat_off field))) = Some v"
    and u: "nat_lookup_ip (nat_lookup (config_of w)) (bswap32 (rd32 (buf m) inner)) = Some u"
    and ck: "cksum_ok (rdn (buf m) 14 20)" "cksum_ok (rdn (buf m) 34 n)" "cksum_ok (rdn (buf m) 42 20)"
  shows "\<exists>w' m'. action_nat_rewrite field p port w = Some (0, w') \<and> mbufs w' p = Some m' \<and>
    rd32 (buf m') (nat_off field) = v \<and> rd32 (buf m') inner = u \<and>
    cksum_ok (rdn (buf m') 14 20) \<and> cksum_ok (rdn (buf m') 34 n) \<and> cksum_ok (rdn (buf m') 42 20)"
proof -
  let ?off = "nat_off field" and ?b = "nat_outer (nat_off field) v (buf m)"
  define m1 where "m1 = m\<lparr>buf := ?b\<rparr>"
  have len: "62 \<le> length (buf m)" using n by simp
  note off = nat_off_cases [of field]
  have ioff: "inner = 54 \<or> inner = 58" using inner_off_cases inner by simp
  have nz: "v \<noteq> 0" "u \<noteq> 0" using v u by (auto dest: nat_lookup_nonzero)
  have len1: "length ?b = length (buf m)" using len off by (auto simp: length_nat_outer)
  have same: "?b ! 34 = buf m ! 34" "rd32 ?b inner = rd32 (buf m) inner"
      "rdn ?b 34 n = rdn (buf m) 34 n" "rdn ?b 42 20 = rdn (buf m) 42 20" "rd32 ?b ?off = v"
    using n len off ioff by (auto simp: nat_outer_def buf_simps)
  have "action_nat_rewrite field p port w =
      Some (0, set_pkt p (m\<lparr>buf := nat_inner inner u ?b\<rparr>) w)"
    using action_nat_rewrite_impl_hit [OF m len off v m1_def, of port] proto err u len len1 same inner
      icmp_nat_handle_eq [of "set_pkt p m1 w" p m1]
    by (simp add: action_nat_rewrite_impl m1_def)
  moreover have "cksum_ok (rdn (nat_inner inner u ?b) 14 20)" "rd32 (nat_inner inner u ?b) ?off = v"
    using nat_inner_frame [of ?b inner] nat_outer_header [OF _ off nz(1) ck(1)] len len1 ioff off same
    by auto
  moreover have "cksum_ok (rdn (nat_inner inner u ?b) 34 n)"
    by (rule nat_inner_message) (use n len1 ioff nz ck same in auto)
  moreover have "cksum_ok (rdn (nat_inner inner u ?b) 42 20)" "rd32 (nat_inner inner u ?b) inner = u"
    using nat_inner_header [of ?b inner u] len len1 ioff nz ck same by auto
  ultimately show ?thesis by auto
qed

text \<open>
  C21. TCP and UDP: in a packet that is not a fragment the checksum field is cleared and the
  NIC is asked to fill it in; in a first fragment it is updated so that checksum plus address
  keep their sum modulo 65535, which is what the checksum of the whole datagram depends on; a
  UDP checksum of zero, which means that there is none, stays zero.
\<close>

theorem nat_rewrite_l4:
  assumes m: "mbufs w p = Some m" and len: "62 \<le> length (buf m)"
    and v: "nat_lookup_ip (nat_lookup (config_of w)) (bswap32 (rd32 (buf m) (nat_off field))) = Some v"
    and old: "old = rd32 (buf m) (nat_off field)"
    and l4: "l4_proto (buf m) = IPPROTO_TCP \<and> k = 50 \<and> fl = PKT_TX_TCP_CKSUM \<or>
      l4_proto (buf m) \<in> {IPPROTO_UDP, IPPROTO_UDPLITE} \<and> k = 40 \<and> fl = PKT_TX_UDP_CKSUM"
  shows "\<exists>w' m'. action_nat_rewrite field p port w = Some (0, w') \<and> mbufs w' p = Some m' \<and>
    (if k = 40 \<and> rd16 (buf m) k = 0 then rd16 (buf m') k = 0 \<and> ol_flags m' = ol_flags m
     else if NATA_IS_FIRST_FRAG (rd16 (buf m) 20) then
       (unat (rd16 (buf m') k) + unat v) mod 65535 = (unat (rd16 (buf m) k) + unat old) mod 65535 \<and>
       ol_flags m' = ol_flags m
     else rd16 (buf m') k = 0 \<and> ol_flags m' = ol_flags m OR fl)"
proof -
  let ?off = "nat_off field" and ?b = "nat_outer (nat_off field) v (buf m)"
  define m1 where "m1 = m\<lparr>buf := ?b\<rparr>"
  note off = nat_off_cases [of field]
  have len1: "length ?b = length (buf m)" using len off by (auto simp: length_nat_outer)
  have same: "rd16 ?b 40 = rd16 (buf m) 40" "rd16 ?b 50 = rd16 (buf m) 50"
      "rd16 ?b 20 = rd16 (buf m) 20" "?b ! 23 = buf m ! 23"
    using len off by (auto simp: nat_outer_def buf_simps)
  have p: "l4_proto ?b = l4_proto (buf m)" by (simp add: l4_proto_def same)
  have "action_nat_rewrite field p port w = Some (0, set_pkt p (nat_l4 old v m1) w)"
    using action_nat_rewrite_impl_hit [OF m len off v m1_def, of port] l4 proto_consts
    by (auto simp: action_nat_rewrite_impl old)
  then show ?thesis
    using l4 len len1 proto_consts
    by (auto simp: nat_l4_def Let_def m1_def p same buf_simps cksum_update_props(1))
qed

text \<open>
  C30. A packet whose address has no rule is dropped: it is freed, exactly once, the counter
  \<open>drop_no_rule\<close> goes up by one, the rules stop, and nothing is sent.
\<close>

theorem nat_rewrite_no_rule:
  assumes "mbufs w p = Some m" "62 \<le> length (buf m)"
    and "nat_lookup_ip (nat_lookup (config_of w)) (bswap32 (rd32 (buf m) (nat_off field))) = None"
  shows "\<exists>w'. action_nat_rewrite field p port w = Some (- 1, w') \<and> mbufs w' = (mbufs w)(p := None) \<and>
    freed w' = freed w @ [p] \<and> wire w' = wire w \<and> queues_of w' = queues_of w \<and>
    stats_of w' = (stats_of w)\<lparr>drop_no_rule := drop_no_rule (stats_of w) + 1\<rparr>"
  using action_nat_rewrite_impl_miss [OF assms(1,2) nat_off_cases assms(3)]
  by (simp add: action_nat_rewrite_impl dropped_no_rule_def)


text \<open>
  The length test in \<open>icmp_nat_handle\<close> never fires, because the difference is
  unsigned: an ICMP error whose total length leaves no room for the quoted header, for which
  the comment promises that nothing is rewritten, has the bytes at that place translated
  all the same.
\<close>

theorem icmp_length_guard_dead:
  assumes m: "mbufs w p = Some m" and len: "62 \<le> length (buf m)"
    and short: "unat (bswap16 (rd16 (buf m) 16)) < 20 + 8 + 20"
    and err: "icmp_error_type (buf m ! 34)"
    and u: "nat_lookup_ip (nat_lookup (config_of w)) (bswap32 (rd32 (buf m) (inner_off field))) = Some u"
  shows "\<exists>w' m'. icmp_nat_handle p field w = Some (0, w') \<and> mbufs w' p = Some m' \<and>
    rd32 (buf m') (inner_off field) = u"
proof -
  have "rd32 (nat_inner (inner_off field) u (buf m)) (inner_off field) = u"
    using len inner_off_cases [of field] by (auto simp: nat_inner_def Let_def buf_simps)
  then show ?thesis using icmp_nat_handle_eq [OF m len, of field] err u by simp
qed

section \<open>The contract of a rule function\<close>

text \<open>
  A negative result says that the packet is gone, any other that it is still in hand.
\<close>

definition handled :: "ptr \<Rightarrow> ptr list \<Rightarrow> world \<Rightarrow> int \<Rightarrow> world \<Rightarrow> bool" where
  "handled p ps w r w' \<longleftrightarrow> evolves ps w w' \<and>
    (if r < 0 then owns ps w' else owns (p # ps) w' \<and> roomy p w')"

text \<open>What the data of a rule function has to satisfy: an output queue, a shift in range.\<close>

fun valid_action :: "nat \<Rightarrow> action_fn \<Rightarrow> bool" where
  "valid_action n (Act_out out) \<longleftrightarrow> unat (out_port out) < n \<and> length (next_hop out) = 6"
| "valid_action n (Cond_ipv4_src_in_network net) \<longleftrightarrow> 1 \<le> unat (net_mask net) \<and> unat (net_mask net) \<le> 32"
| "valid_action n (Cond_ipv4_dst_in_network net) \<longleftrightarrow> 1 \<le> unat (net_mask net) \<and> unat (net_mask net) \<le> 32"
| "valid_action n _ \<longleftrightarrow> True"

lemma owns_free:
  "owns (p # ps) w \<Longrightarrow> owns ps (w\<lparr>mbufs := (mbufs w)(p := None), freed := fs\<rparr>)"
  by (auto simp: owns_def shares_def has_room_def all_queued_def)

lemma handled_drop:
  assumes "owns (p # ps) w" "\<And>s. drops (f s) = drops s + 1" "r < 0"
  shows "handled p ps w r (upd_stats f (w\<lparr>mbufs := (mbufs w)(p := None), freed := freed w @ [p]\<rparr>))"
proof -
  obtain m where m: "mbufs w p = Some m" using owns_live [OF assms(1)] by auto
  have "card (dom (mbufs w) - {p}) + 1 = card (dom (mbufs w))" if "finite (dom (mbufs w))"
    using card_Suc_Diff1 [OF that domI [of "mbufs w" p, OF m]] by (simp only: Suc_eq_plus1)
  then have "packets (upd_stats f (w\<lparr>mbufs := (mbufs w)(p := None), freed := freed w @ [p]\<rparr>)) = packets w"
    if "finite (dom (mbufs w))" using that by (simp add: packets_def)
  then show ?thesis using assms
    using owns_head [OF assms(1)]
    by (simp add: handled_def evolves_def owns_free) (auto simp: upd_stats_def)
qed

lemma handled_set_pkt:
  assumes "owns (p # ps) w" "62 \<le> length (buf m)"
  shows "handled p ps w 0 (set_pkt p m w)"
  using assms owns_live [OF assms(1), of p] owns_head [OF assms(1)] by (auto simp: handled_def)

lemma handled_same: "owns (p # ps) w \<Longrightarrow> roomy p w \<Longrightarrow> 0 \<le> r \<Longrightarrow> handled p ps w r w"
  by (simp add: handled_def)

lemma handled_dropped_no_rule: "owns (p # ps) w \<Longrightarrow> handled p ps w (- 1) (dropped_no_rule p w)"
  unfolding dropped_no_rule_def by (rule handled_drop) (auto simp: drops_def)

lemma handled_after:
  "mbufs w p = Some m' \<Longrightarrow> p \<notin> set ps \<Longrightarrow> handled p ps (set_pkt p m w) r w' \<Longrightarrow> handled p ps w r w'"
  unfolding handled_def by (blast intro: evolves_trans evolves_set_pkt)

lemma owned_pkt:
  assumes "owns (p # ps) w" "roomy p w"
  obtains m where "mbufs w p = Some m" "62 \<le> length (buf m)"
  using assms owns_live [of "p # ps" w p] by (auto simp: roomy_def)

lemma icmp_nat_handle_handled:
  assumes own: "owns (p # ps) w" and room: "roomy p w"
  shows "\<exists>r w'. icmp_nat_handle p field w = Some (r, w') \<and> handled p ps w r w'"
proof -
  obtain m where m: "mbufs w p = Some m" and len: "62 \<le> length (buf m)"
    using own room by (rule owned_pkt)
  have "length (nat_inner (inner_off field) v (buf m)) = length (buf m)" for v
    using len inner_off_cases [of field] by (auto simp: length_nat_inner)
  then show ?thesis
    using icmp_nat_handle_eq [OF m len, of field] own room len
    by (auto split: option.split intro: handled_dropped_no_rule handled_set_pkt handled_same)
qed

lemma action_nat_rewrite_handled:
  assumes own: "owns (p # ps) w" and room: "roomy p w"
  shows "\<exists>r w'. action_nat_rewrite field p port w = Some (r, w') \<and> handled p ps w r w'"
proof -
  obtain m where m: "mbufs w p = Some m" and len: "62 \<le> length (buf m)"
    using own room by (rule owned_pkt)
  note off = nat_off_cases [of field]
  show ?thesis
  proof (cases "nat_lookup_ip (nat_lookup (config_of w)) (bswap32 (rd32 (buf m) (nat_off field)))")
    case None
    then show ?thesis
      using action_nat_rewrite_impl_miss [OF m len off] own
      by (auto simp: action_nat_rewrite_impl intro: handled_dropped_no_rule)
  next
    case (Some v)
    define m1 where "m1 = m\<lparr>buf := nat_outer (nat_off field) v (buf m)\<rparr>"
    have len1: "62 \<le> length (buf m1)" using len off by (auto simp: m1_def length_nat_outer)
    have w1: "owns (p # ps) (set_pkt p m1 w)" "roomy p (set_pkt p m1 w)" using own len1 by simp_all
    have "62 \<le> length (buf (nat_l4 old v m1))" for old using len1 by (simp add: length_nat_l4)
    then have l4: "handled p ps w 0 (set_pkt p (nat_l4 old v m1) w)" for old
      by (rule handled_set_pkt [OF own])
    have icmp: "\<exists>r w'. icmp_nat_handle p inner (set_pkt p m1 w) = Some (r, w') \<and> handled p ps w r w'" for inner
      using icmp_nat_handle_handled [OF w1] handled_after [OF m owns_head [OF own]] by blast
    show ?thesis
      unfolding action_nat_rewrite_impl action_nat_rewrite_impl_hit [OF m len off Some m1_def]
      using l4 icmp by (simp split: if_split)
  qed
qed


lemma owns_set_pkt_mac:
  "owns (p # ps) w \<Longrightarrow> mbufs w p = Some m \<Longrightarrow> 14 \<le> length (buf m) \<Longrightarrow> length a = 6 \<Longrightarrow> length b = 6 \<Longrightarrow>
    i + 6 \<le> 14 \<Longrightarrow> j + 6 \<le> 14 \<Longrightarrow>
    do { w \<leftarrow> pkt_stn p i a w; pkt_stn p j b w } =
      Some (set_pkt p (m\<lparr>buf := wrn (wrn (buf m) i a) j b\<rparr>) w)"
  by (simp add: pkt_simps buf_simps)

lemma action_out_handled:
  assumes D: "dpdk_ok D" and own: "owns (p # ps) w" and room: "roomy p w"
    and out: "valid_action (length (queues_of w)) (Act_out out)"
  shows "\<exists>r w'. action_out D out p port w = Some (r, w') \<and> r = - 1 \<and> handled p ps w r w'"
proof -
  obtain m where m: "mbufs w p = Some m" and len: "62 \<le> length (buf m)"
    using own room by (rule owned_pkt)
  have mac: "length (rte_eth_macaddr_get D port) = 6" using D by (simp add: dpdk_ok_def)
  define m' where "m' = m\<lparr>buf := wrn (wrn (buf m) 6 (rte_eth_macaddr_get D port)) 0 (next_hop out),
    ol_flags := ol_flags m OR PKT_TX_IPV4, vlan_tci := of_int (out_vlan out)\<rparr>"
  have i: "unat (out_port out) < length (queues_of w)" using out by simp
  obtain n w' where "tx_send D p (out_port out) (unat (out_port out)) (set_pkt p m' w) = Some (n, w')"
      "owns ps w'" "evolves ps w w'"
    using tx.forge_and_send [OF D own i] by blast
  moreover have "action_out D out p port w = do {
      (sent, w) \<leftarrow> tx_send D p (out_port out) (unat (out_port out)) (set_pkt p m' w); Some (- 1, w) }"
    using m len mac out by (simp add: action_out_def pkt_simps buf_simps upd_pkt_def m'_def)
  ultimately show ?thesis by (simp add: handled_def)
qed

lemma action_drop_handled:
  assumes own: "owns (p # ps) w"
  shows "\<exists>w'. action_drop p port w = Some (- 1, w') \<and> handled p ps w (- 1) w'"
proof -
  obtain m where m: "mbufs w p = Some m" using owns_live [OF own] by auto
  let ?f = "drop_nat_condition_update (\<lambda>n. n + 1)"
  have "action_drop p port w = Some (- 1, upd_stats ?f
      (w\<lparr>mbufs := (mbufs w)(p := None), freed := freed w @ [p]\<rparr>))"
    using m by (simp add: action_drop_def rte_pktmbuf_free_def upd_stats_def)
  then show ?thesis using handled_drop [OF own, of ?f "- 1"] by (simp add: drops_def)
qed

lemma action_print_ok:
  "mbufs w p = Some m \<Longrightarrow> 62 \<le> length (buf m) \<Longrightarrow> action_print p port w = Some (0, w)"
  by (simp add: action_print_def pkt_simps buf_simps)

lemma ipv4_in_network_ok:
  assumes "1 \<le> unat (net_mask net)" "unat (net_mask net) \<le> 32"
  shows "\<exists>b. ipv4_in_network ip net = Some b"
proof -
  have "unat (32 - net_mask net) = 32 - unat (net_mask net)"
    using assms by (subst unat_sub) (simp_all add: word_le_nat_alt)
  then show ?thesis using assms by (simp add: ipv4_in_network_def Let_def)
qed

text \<open>A condition only reads.\<close>

fun is_cond :: "action_fn \<Rightarrow> bool" where
  "is_cond (Cond_ipv4_src_in_network net) = True"
| "is_cond (Cond_ipv4_dst_in_network net) = True"
| "is_cond (Cond_vlan vlan) = True"
| "is_cond _ = False"

lemma run_cond:
  assumes "is_cond a" "valid_action n a" "mbufs w p = Some m" "62 \<le> length (buf m)"
  shows "\<exists>b. run_action D a p port w = Some (of_bool b, w)"
proof (cases a)
  case (Cond_ipv4_src_in_network net)
  then obtain b where "ipv4_in_network (bswap32 (rd32 (buf m) 26)) net = Some b"
    using assms(2) ipv4_in_network_ok by fastforce
  then have "run_action D a p port w = Some (of_bool b, w)"
    using Cond_ipv4_src_in_network assms(3,4)
    by (simp add: cond_ipv4_src_in_network_def pkt_simps buf_simps)
  then show ?thesis ..
next
  case (Cond_ipv4_dst_in_network net)
  then obtain b where "ipv4_in_network (bswap32 (rd32 (buf m) 30)) net = Some b"
    using assms(2) ipv4_in_network_ok by fastforce
  then have "run_action D a p port w = Some (of_bool b, w)"
    using Cond_ipv4_dst_in_network assms(3,4)
    by (simp add: cond_ipv4_dst_in_network_def pkt_simps buf_simps)
  then show ?thesis ..
next
  case (Cond_vlan vlan)
  then have "run_action D a p port w = Some (of_bool (VLAN_ID m = vlan), w)"
    using assms(3) by (simp add: cond_vlan_def)
  then show ?thesis ..
qed (use assms(1) in simp_all)

lemma run_action_handled:
  assumes D: "dpdk_ok D" and own: "owns (p # ps) w" and room: "roomy p w"
    and a: "valid_action (length (queues_of w)) a"
  shows "\<exists>r w'. run_action D a p port w = Some (r, w') \<and> handled p ps w r w'"
proof -
  obtain m where m: "mbufs w p = Some m" and len: "62 \<le> length (buf m)"
    using own room by (rule owned_pkt)
  show ?thesis
  proof (cases "is_cond a")
    case True
    then obtain b where "run_action D a p port w = Some (of_bool b, w)"
      using run_cond [OF True a m len] by blast
    then show ?thesis using handled_same [OF own room, of "of_bool b"] by simp
  next
    case False
    then show ?thesis
      using a own room m len action_nat_rewrite_handled [OF own room]
        action_out_handled [OF D own room] action_drop_handled [OF own]
        handled_same [OF own room, of 0] action_print_ok [OF m len]
      by (cases a) (simp_all, blast+)
  qed
qed


section \<open>Sample packets\<close>

text \<open>
  A table with the rule \<open>10.0.1.2 -> 212.48.49.50\<close>, a TCP packet from 10.0.1.2 to
  8.8.8.8, and an ICMP error (time exceeded) to 212.48.49.50 that quotes a packet it sent.
\<close>

definition sample_table :: nat_lookup where
  "sample_table = Some \<lparr>first_addr = 1, first_ent = (\<lambda>i. Some \<lparr>second_addr = 2, second_ent = (\<lambda>j.
     Some \<lparr>leaf_addr = 3, leaf_ent = (\<lambda>k.
       if i = 10 \<and> j = 0 \<and> k = 258 then bswap32 0xD4303132
       else if i = 212 \<and> j = 48 \<and> k = 12594 then bswap32 0x0A000102 else 0)\<rparr>)\<rparr>)\<rparr>"

definition icmp_error_pkt :: bytes where
  "icmp_error_pkt =
   [2, 0, 0, 0, 0, 1, 2, 0, 0, 0, 0, 2, 8, 0,
    69, 0, 0, 48, 0, 0, 0, 0, 64, 1, 105, 95, 8, 8,
    4, 4, 212, 48, 49, 50, 11, 0, 244, 255, 0, 0, 0, 0,
    69, 0, 0, 28, 0, 0, 0, 0, 64, 17, 101, 95, 212, 48,
    49, 50, 8, 8, 8, 8]"

definition tcp_pkt :: bytes where
  "tcp_pkt =
   [2, 0, 0, 0, 0, 1, 2, 0, 0, 0, 0, 2, 8, 0,
    69, 0, 0, 48, 0, 0, 0, 0, 64, 6, 95, 183, 10, 0,
    1, 2, 8, 8, 8, 8, 4, 210, 0, 80, 0, 0, 0, 1,
    0, 0, 0, 0, 80, 2, 4, 0, 171, 205, 0, 0, 0, 0,
    0, 0, 0, 0, 0, 0]"

definition sample_world :: "bytes \<Rightarrow> world" where
  "sample_world b = world0 (config0\<lparr>nat_lookup := sample_table\<rparr>) [mbuf_of b]"

lemma sample_world_simps [simp]:
  "mbufs (sample_world b) 0 = Some (mbuf_of b)" "nat_lookup (config_of (sample_world b)) = sample_table"
  "buf (mbuf_of b) = b"
  by (simp_all add: sample_world_def mbuf_of_def)

lemma sample_lookup [simp]:
  "nat_lookup_ip sample_table 0x0A000102 = Some (bswap32 0xD4303132)"
  "nat_lookup_ip sample_table 0xD4303132 = Some (bswap32 0x0A000102)"
  "nat_lookup_ip sample_table 0x08080808 = None"
  by (simp_all add: nat_lookup_ip_def sample_table_def fstb_def sndb_def l2b_def)

lemma tcp_pkt_facts:
  "62 \<le> length tcp_pkt" "cksum_ok (rdn tcp_pkt 14 20)" "l4_proto tcp_pkt = IPPROTO_TCP"
  "rd32 tcp_pkt (nat_off 0) = bswap32 0x0A000102" "rd32 tcp_pkt (nat_off 1) = bswap32 0x08080808"
  "rd16 tcp_pkt 20 = 0"
  by (simp_all add: tcp_pkt_def cksum_ok_wsum wsum_def rdn_def unat_le16 l4_proto_def rd16_def
      NATA_IS_FRAG_def le16_def IPPROTO_TCP_def nat_off_def IPV4_SRC_ADDR_def rd32_def le32_def
      bswap32_def byte_of_def)

lemma icmp_error_pkt_facts:
  "62 \<le> length icmp_error_pkt" "l4_proto icmp_error_pkt = IPPROTO_ICMP"
  "icmp_error_type (icmp_error_pkt ! 34)"
  "rd32 icmp_error_pkt (nat_off 1) = bswap32 0xD4303132"
  "rd32 icmp_error_pkt (inner_off IPV4_SRC_ADDR) = bswap32 0xD4303132"
  "cksum_ok (rdn icmp_error_pkt 14 20)" "cksum_ok (rdn icmp_error_pkt 34 28)"
  "cksum_ok (rdn icmp_error_pkt 42 20)"
  by (simp_all add: icmp_error_pkt_def cksum_ok_wsum wsum_def rdn_def unat_le16 l4_proto_def rd16_def
      NATA_IS_FRAG_def le16_def IPPROTO_ICMP_def nat_off_def inner_off_def IPV4_SRC_ADDR_def rd32_def
      le32_def bswap32_def byte_of_def icmp_error_type_def ICMP_TIME_EXCEEDED_def)

theorem nat_rewrite_packet_witness:
  "\<exists>w' m'. action_nat_rewrite 0 0 1 (sample_world tcp_pkt) = Some (0, w') \<and> mbufs w' 0 = Some m' \<and>
    rd32 (buf m') 26 = bswap32 0xD4303132 \<and> cksum_ok (rdn (buf m') 14 20)"
  using nat_rewrite_packet [of "sample_world tcp_pkt" 0 "mbuf_of tcp_pkt" 0 "bswap32 0xD4303132" 1]
    tcp_pkt_facts proto_consts by (auto simp: nat_off_def IPV4_SRC_ADDR_def)

theorem nat_rewrite_icmp_error_witness:
  "\<exists>w' m'. action_nat_rewrite 1 0 1 (sample_world icmp_error_pkt) = Some (0, w') \<and>
    mbufs w' 0 = Some m' \<and> rd32 (buf m') 30 = bswap32 0x0A000102 \<and>
    rd32 (buf m') 54 = bswap32 0x0A000102 \<and> cksum_ok (rdn (buf m') 34 28)"
proof -
  have off: "nat_off 1 = 30" "inner_off IPV4_SRC_ADDR = 54" "(1::int) \<noteq> IPV4_SRC_ADDR"
    by (simp_all add: nat_off_def inner_off_def IPV4_SRC_ADDR_def)
  note f = icmp_error_pkt_facts [unfolded off]
  have "\<exists>w' m'. action_nat_rewrite 1 0 1 (sample_world icmp_error_pkt) = Some (0, w') \<and>
    mbufs w' 0 = Some m' \<and> rd32 (buf m') (nat_off 1) = bswap32 0x0A000102 \<and>
    rd32 (buf m') 54 = bswap32 0x0A000102 \<and> cksum_ok (rdn (buf m') 14 20) \<and>
    cksum_ok (rdn (buf m') 34 28) \<and> cksum_ok (rdn (buf m') 42 20)"
    by (rule nat_rewrite_icmp_error [where m = "mbuf_of icmp_error_pkt"]) (simp_all add: f off)
  then show ?thesis unfolding off by blast
qed

theorem nat_rewrite_l4_witness:
  "\<exists>w' m'. action_nat_rewrite 0 0 1 (sample_world tcp_pkt) = Some (0, w') \<and> mbufs w' 0 = Some m' \<and>
    rd16 (buf m') 50 = 0 \<and> ol_flags m' = PKT_TX_TCP_CKSUM"
proof -
  let ?m = "mbuf_of tcp_pkt"
  have off: "nat_off 0 = 26" by (simp add: nat_off_def IPV4_SRC_ADDR_def)
  note f = tcp_pkt_facts [unfolded off]
  have "\<exists>w' m'. action_nat_rewrite 0 0 1 (sample_world tcp_pkt) = Some (0, w') \<and> mbufs w' 0 = Some m' \<and>
    (if (50::nat) = 40 \<and> rd16 (buf ?m) 50 = 0 then rd16 (buf m') 50 = 0 \<and> ol_flags m' = ol_flags ?m
     else if NATA_IS_FIRST_FRAG (rd16 (buf ?m) 20) then
       (unat (rd16 (buf m') 50) + unat (bswap32 0xD4303132)) mod 65535 =
         (unat (rd16 (buf ?m) 50) + unat (bswap32 0x0A000102)) mod 65535 \<and> ol_flags m' = ol_flags ?m
     else rd16 (buf m') 50 = 0 \<and> ol_flags m' = ol_flags ?m OR PKT_TX_TCP_CKSUM)"
    by (rule nat_rewrite_l4) (simp_all add: f off)
  moreover have "\<not> NATA_IS_FIRST_FRAG (rd16 (buf ?m) 20)" "ol_flags ?m = 0"
    by (simp_all add: NATA_IS_FIRST_FRAG_def mbuf_of_def tcp_pkt_facts)
  ultimately show ?thesis by simp
qed

theorem nat_rewrite_no_rule_witness:
  "\<exists>w'. action_nat_rewrite 1 0 1 (sample_world tcp_pkt) = Some (- 1, w') \<and> freed w' = [0] \<and>
    drop_no_rule (stats_of w') = 1"
  using nat_rewrite_no_rule [of "sample_world tcp_pkt" 0 "mbuf_of tcp_pkt" 1 1] tcp_pkt_facts
  by (auto simp: sample_world_def stats0_def)

text \<open>The sample error with its total length forged to 28 bytes.\<close>

definition short_error_pkt :: bytes where
  "short_error_pkt = wr16 icmp_error_pkt 16 (bswap16 28)"

theorem icmp_length_guard_dead_witness:
  "unat (bswap16 (rd16 short_error_pkt 16)) = 28 \<and>
   (\<exists>w' m'. icmp_nat_handle 0 0 (sample_world short_error_pkt) = Some (0, w') \<and>
     mbufs w' 0 = Some m' \<and> rd32 (buf m') 54 = bswap32 0x0A000102)"
proof -
  have f: "62 \<le> length short_error_pkt" "bswap16 (rd16 short_error_pkt 16) = 28"
      "short_error_pkt ! 34 = icmp_error_pkt ! 34"
      "rd32 short_error_pkt (inner_off 0) = rd32 icmp_error_pkt (inner_off IPV4_SRC_ADDR)"
    using icmp_error_pkt_facts(1) by (simp_all add: short_error_pkt_def buf_simps inner_off_def IPV4_SRC_ADDR_def)
  show ?thesis
    using icmp_length_guard_dead [of "sample_world short_error_pkt" 0 "mbuf_of short_error_pkt" 0
        "bswap32 0x0A000102"] f icmp_error_pkt_facts
    by (auto simp: inner_off_def IPV4_SRC_ADDR_def)
qed

end
