(* ===== verification/Ipv4.thy ===== *)
theory Ipv4
  imports Actions
begin

text \<open>
  IPv4 packets, \<open>src/src/ipv4.c\<close>: the answer to echo requests addressed to the
  router, the interpreter of the rule tree, and the handler that ties them together.

  \<open>process_rules\<close> calls the function of an \<open>ACTION\<close> node through a pointer; here
  the call is the parameter \<open>call\<close>, instantiated with \<open>run_action\<close>.
\<close>

section \<open>Echo replies\<close>

definition IP_ICMP_ECHO_REPLY :: u8 where "IP_ICMP_ECHO_REPLY = 0"
definition IP_ICMP_ECHO_REQUEST :: u8 where "IP_ICMP_ECHO_REQUEST = 8"

definition icmp_echo :: "dpdk \<Rightarrow> ptr \<Rightarrow> u8 \<Rightarrow> world \<Rightarrow> (int \<times> world) option" where
  "icmp_echo D p port w = do {
     w \<leftarrow> pkt_st8 p (icmp_header + icmp_icmp_type) IP_ICMP_ECHO_REPLY w;
     tmp_eth \<leftarrow> pkt_ldn p (eth_header + eth_s_addr) 6 w;
     d_addr \<leftarrow> pkt_ldn p (eth_header + eth_d_addr) 6 w;
     w \<leftarrow> pkt_stn p (eth_header + eth_s_addr) d_addr w;
     w \<leftarrow> pkt_stn p (eth_header + eth_d_addr) tmp_eth w;
     tmp_ip \<leftarrow> pkt_ld32 p (ipv4_header + ip_src_addr) w;
     dst_addr \<leftarrow> pkt_ld32 p (ipv4_header + ip_dst_addr) w;
     w \<leftarrow> pkt_st32 p (ipv4_header + ip_src_addr) dst_addr w;
     w \<leftarrow> pkt_st32 p (ipv4_header + ip_dst_addr) tmp_ip w;
     w \<leftarrow> pkt_st16 p (ipv4_header + ip_hdr_checksum) 0 w;
     hdr \<leftarrow> pkt_ldn p ipv4_header sizeof_ipv4_hdr w;
     w \<leftarrow> pkt_st16 p (ipv4_header + ip_hdr_checksum) (rte_ipv4_cksum D hdr) w;
     w \<leftarrow> pkt_st16 p (icmp_header + icmp_icmp_cksum) 0 w;
     total_length \<leftarrow> pkt_ld16 p (ipv4_header + ip_total_length) w;
     msg \<leftarrow> pkt_ldn p icmp_header
       (unat (ucast (bswap16 total_length) - of_nat sizeof_ipv4_hdr :: u64)) w;
     w \<leftarrow> pkt_st16 p (icmp_header + icmp_icmp_cksum) (NOT (rte_raw_cksum D msg)) w;
     (n, w) \<leftarrow> tx_send D p port (unat port) w;
     Some (uint n, w) }"

definition icmp_dispatch :: "dpdk \<Rightarrow> ptr \<Rightarrow> u8 \<Rightarrow> world \<Rightarrow> (int \<times> world) option" where
  "icmp_dispatch D p port w = do {
     icmp_type \<leftarrow> pkt_ld8 p (icmp_header + icmp_icmp_type) w;
     if icmp_type = IP_ICMP_ECHO_REQUEST then icmp_echo D p port w else Some (- 1, w) }"

definition icmp_answer :: "dpdk \<Rightarrow> ptr \<Rightarrow> u8 \<Rightarrow> world \<Rightarrow> (int \<times> world) option" where
  "icmp_answer D p port w = do {
     dst_addr \<leftarrow> pkt_ld32 p (ipv4_header + ip_dst_addr) w;
     m \<leftarrow> mbufs w p;
     ours \<leftarrow> is_natasha_ip D (config_of w) (bswap32 dst_addr) (VLAN_ID m);
     if \<not> ours then Some (- 1, w)
     else do {
       (r, w) \<leftarrow> icmp_dispatch D p port w;
       if r < 0 then do {
         w \<leftarrow> rte_pktmbuf_free p (upd_stats (drop_unknown_icmp_update (\<lambda>n. n + 1)) w);
         Some (0, w) }
       else Some (0, w) } }"

section \<open>The rule interpreter\<close>

type_synonym rule_call = "action_fn \<Rightarrow> ptr \<Rightarrow> u8 \<Rightarrow> world \<Rightarrow> (int \<times> world) option"

fun process_rules :: "rule_call \<Rightarrow> app_config_node \<Rightarrow> ptr \<Rightarrow> u8 \<Rightarrow> world \<Rightarrow> (int \<times> world) option" where
  "process_rules call Null_node p port w = Some (0, w)"
| "process_rules call (Node _ type left right action data) p port w =
    (case type of
       N_ACTION \<Rightarrow> do { f \<leftarrow> action; call f p port w }
     | N_SEQ \<Rightarrow> do {
         (ret, w) \<leftarrow> process_rules call left p port w;
         if ret < 0 then Some (- 1, w)
         else do {
           (ret, w) \<leftarrow> process_rules call right p port w;
           if ret < 0 then Some (- 1, w) else Some (0, w) } }
     | N_IF \<Rightarrow> do {
         (ret, w) \<leftarrow> process_rules call left p port w;
         if ret < 0 then Some (- 1, w)
         else if ret = 0 then do {
           (ret, w) \<leftarrow> process_rules call right p port w;
           if ret < 0 then Some (- 1, w) else Some (0, w) }
         else Some (0, w) }
     | N_COND \<Rightarrow> do {
         (ret, w) \<leftarrow> process_rules call left p port w;
         if ret < 0 then Some (- 1, w)
         else if ret = 0 then Some (0, w)
         else do {
           (ret, w) \<leftarrow> process_rules call right p port w;
           if ret < 0 then Some (- 1, w) else Some (1, w) } }
     | N_AND \<Rightarrow> do {
         (ret, w) \<leftarrow> process_rules call left p port w;
         if ret < 0 then Some (- 1, w)
         else if ret = 0 then Some (0, w)
         else do {
           (ret, w) \<leftarrow> process_rules call right p port w;
           if ret < 0 then Some (- 1, w) else Some (ret, w) } }
     | N_OR \<Rightarrow> do {
         (ret, w) \<leftarrow> process_rules call left p port w;
         if ret < 0 then Some (- 1, w)
         else if ret \<noteq> 0 then Some (1, w)
         else do {
           (ret, w) \<leftarrow> process_rules call right p port w;
           if ret < 0 then Some (- 1, w) else Some (ret, w) } }
     | N_NOOP \<Rightarrow> Some (0, w))"

section \<open>The handler\<close>

text \<open>
  \<open>padding_len\<close> is an \<open>int\<close>: the difference, computed at the width of \<open>size_t\<close>, is cut to
  32 bits and read as a signed number.
\<close>

definition padding_len :: "rte_mbuf \<Rightarrow> u16 \<Rightarrow> int" where
  "padding_len m ipv4_len =
    sint (ucast (ucast (pkt_len m) - of_nat sizeof_ether_hdr - ucast ipv4_len :: u64) :: u32)"

definition fix_nexus9000_padding_bug :: "ptr \<Rightarrow> world \<Rightarrow> world option" where
  "fix_nexus9000_padding_bug p w = do {
     total_length \<leftarrow> pkt_ld16 p (ipv4_header + ip_total_length) w;
     let ipv4_len = bswap16 total_length;
     m \<leftarrow> mbufs w p;
     let padding = padding_len m ipv4_len;
     if padding > 0
     then pkt_stn p (sizeof_ether_hdr + unat ipv4_len) (replicate (nat padding) 0) w
     else Some w }"

definition ipv4_handle :: "dpdk \<Rightarrow> ptr \<Rightarrow> u8 \<Rightarrow> world \<Rightarrow> (int \<times> world) option" where
  "ipv4_handle D p port w = do {
     w \<leftarrow> fix_nexus9000_padding_bug p w;
     next_proto_id \<leftarrow> pkt_ld8 p (ipv4_header + ip_next_proto_id) w;
     (ret, w) \<leftarrow> (if next_proto_id = IPPROTO_ICMP then icmp_answer D p port w else Some (- 1, w));
     if ret \<ge> 0 then Some (ret, w)
     else if rules (config_of w) = Null_node then Some (- 1, w)
     else do {
       (_, w) \<leftarrow> process_rules (run_action D) (rules (config_of w)) p port w;
       Some (0, w) } }"


section \<open>Rule trees\<close>

text \<open>
  Every \<open>ACTION\<close> node has a function, and its data is valid for a worker with \<open>n\<close> queues.
\<close>

fun valid_node :: "(nat \<Rightarrow> action_fn \<Rightarrow> bool) \<Rightarrow> nat \<Rightarrow> app_config_node \<Rightarrow> bool" where
  "valid_node valid n Null_node = True"
| "valid_node valid n (Node _ type left right action data) =
    (case type of
       N_ACTION \<Rightarrow> (case action of None \<Rightarrow> False | Some f \<Rightarrow> valid n f)
     | N_NOOP \<Rightarrow> True
     | _ \<Rightarrow> valid_node valid n left \<and> valid_node valid n right)"

text \<open>
  The trees that end on every path in a function that stops the rules: a sequence with such
  a part, a conditional whose body and whose else part are such.
\<close>

fun breaking :: "(action_fn \<Rightarrow> bool) \<Rightarrow> app_config_node \<Rightarrow> bool"
  and breaking_body :: "(action_fn \<Rightarrow> bool) \<Rightarrow> app_config_node \<Rightarrow> bool" where
  "breaking stops Null_node = False"
| "breaking stops (Node _ type left right action data) =
    (case type of
       N_ACTION \<Rightarrow> (case action of None \<Rightarrow> False | Some f \<Rightarrow> stops f)
     | N_SEQ \<Rightarrow> breaking stops left \<or> breaking stops right
     | N_IF \<Rightarrow> breaking_body stops left \<and> breaking stops right
     | _ \<Rightarrow> False)"
| "breaking_body stops Null_node = False"
| "breaking_body stops (Node _ type left right action data) =
    (case type of N_COND \<Rightarrow> breaking stops right | _ \<Rightarrow> False)"

text \<open>
  The interface between the interpreter and the rule functions: a call on valid data
  returns, keeps or consumes the packet as its result says, and some functions always stop.
\<close>

locale rule_functions =
  fixes call :: "dpdk \<Rightarrow> rule_call"
    and valid :: "nat \<Rightarrow> action_fn \<Rightarrow> bool"
    and stops :: "action_fn \<Rightarrow> bool"
  assumes call_handled: "dpdk_ok D \<Longrightarrow> owns (p # ps) w \<Longrightarrow> roomy p w \<Longrightarrow>
      valid (length (queues_of w)) f \<Longrightarrow>
      \<exists>r w'. call D f p port w = Some (r, w') \<and> handled p ps w r w'"
    and call_stops: "stops f \<Longrightarrow> call D f p port w = Some (r, w') \<Longrightarrow> r < 0"
begin

lemma handled_seq: "handled p ps w r w' \<Longrightarrow> r \<ge> 0 \<Longrightarrow> handled p ps w' r' w'' \<Longrightarrow> handled p ps w r' w''"
  by (auto simp: handled_def intro: evolves_trans)

lemma handled_code: "handled p ps w r w' \<Longrightarrow> (r < 0 \<longleftrightarrow> r' < 0) \<Longrightarrow> handled p ps w r' w'"
  by (simp add: handled_def)

lemma handled_keeps:
  assumes "handled p ps w r w'" "r \<ge> 0"
  shows "owns (p # ps) w'" "roomy p w'" "length (queues_of w') = length (queues_of w)"
  using assms by (simp_all add: handled_def evolves_def)

text \<open>The shape of every inner node: run the left part, maybe stop there, run the right part.\<close>

lemma handled_two:
  assumes "L = Some (r1, w1)" "handled p ps w r1 w1"
    and "r1 \<ge> 0 \<Longrightarrow> \<exists>r2 w2. R w1 = Some (r2, w2) \<and> handled p ps w r2 w2"
    and "\<And>r. r \<ge> 0 \<Longrightarrow> c r \<ge> 0 \<and> d r \<ge> 0"
  shows "\<exists>r w'. (L \<bind> (\<lambda>(r, w). if r < 0 then Some (- 1, w)
      else if leave r then Some (c r, w)
      else R w \<bind> (\<lambda>(r, w). if r < 0 then Some (- 1, w) else Some (d r, w)))) = Some (r, w') \<and>
    handled p ps w r w'"
proof (cases "r1 < 0 \<or> leave r1")
  case True
  then show ?thesis
    using assms(1) assms(4) [of r1] handled_code [OF assms(2), of "- 1"] handled_code [OF assms(2), of "c r1"]
    by (cases "r1 < 0") auto
next
  case False
  then obtain r2 w2 where 2: "R w1 = Some (r2, w2)" "handled p ps w r2 w2" using assms(3) by auto
  then show ?thesis
    using False assms(1) assms(4) [of r2] handled_code [OF 2(2), of "- 1"] handled_code [OF 2(2), of "d r2"]
    by (cases "r2 < 0") auto
qed

lemma if_neq: "(if a \<noteq> b then x else y) = (if a = b then y else x)"
  by simp

text \<open>The interpreter keeps the contract of the functions it calls.\<close>

lemma process_rules_handled:
  assumes "dpdk_ok D" "owns (p # ps) w" "roomy p w" "valid_node valid (length (queues_of w)) node"
  shows "\<exists>r w'. process_rules (call D) node p port w = Some (r, w') \<and> handled p ps w r w'"
  using assms
proof (induction node arbitrary: w)
  case Null_node
  then show ?case by (simp add: handled_def)
next
  case (Node blk type left right action data)
  note IH = Node.IH [OF Node.prems(1)]
  let ?R = "\<lambda>w. process_rules (call D) right p port w"
  show ?case
  proof (cases "type = N_ACTION \<or> type = N_NOOP")
    case True
    then show ?thesis using Node.prems call_handled handled_same [OF Node.prems(2,3), of 0]
      by (auto split: option.splits)
  next
    case False
    then have v: "valid_node valid (length (queues_of w)) left" "valid_node valid (length (queues_of w)) right"
      using Node.prems(4) by (auto split: node_type.splits)
    obtain r1 w1 where 1: "process_rules (call D) left p port w = Some (r1, w1)" "handled p ps w r1 w1"
      using IH(1) [OF Node.prems(2,3) v(1)] by blast
    have 2: "\<exists>r2 w2. ?R w1 = Some (r2, w2) \<and> handled p ps w r2 w2" if "r1 \<ge> 0"
      using IH(2) [of w1] handled_keeps [OF 1(2) that] v(2) handled_seq [OF 1(2) that] by fastforce
    note two = handled_two [where R = ?R, OF 1 2]
    show ?thesis
      using False two [of "\<lambda>_. 0" "\<lambda>_. 0" "\<lambda>_. False", unfolded if_False]
        two [of "\<lambda>_. 0" "\<lambda>_. 0" "\<lambda>r. r \<noteq> 0", unfolded if_neq]
        two [of "\<lambda>_. 0" "\<lambda>_. 1" "\<lambda>r. r = 0"] two [of "\<lambda>_. 0" "\<lambda>r. r" "\<lambda>r. r = 0"]
        two [of "\<lambda>_. 1" "\<lambda>r. r" "\<lambda>r. r \<noteq> 0"]
      by (cases type) simp_all
  qed
qed

text \<open>A breaking tree never lets the packet through: whatever it does, its result is negative.\<close>

lemma two_left_negative:
  fixes r :: int and L :: "(int \<times> 'w) option"
  assumes "(L \<bind> (\<lambda>(r, w). if r < 0 then Some (- 1, w) else K r w)) = Some (r, w')"
    and "\<And>r1 w1. L = Some (r1, w1) \<Longrightarrow> r1 < 0"
  shows "r < 0"
  using assms by (cases L) (auto split: if_splits)

lemma two_right_negative:
  fixes r :: int and L :: "(int \<times> 'w) option"
  assumes "(L \<bind> (\<lambda>(r, w). if r < 0 then Some (- 1, w)
      else if leave r then Some (c r, w)
      else R w \<bind> (\<lambda>(r, w). if r < 0 then Some (- 1, w) else Some (d r, w)))) = Some (r, w')"
    and "\<And>w1 r2 w2. R w1 = Some (r2, w2) \<Longrightarrow> r2 < 0"
  shows "r < 0 \<or> (\<exists>r1 w1. L = Some (r1, w1) \<and> r1 \<ge> 0 \<and> leave r1 \<and> r = c r1)"
proof (cases L)
  case (Some rw)
  obtain r1 w1 where L: "L = Some (r1, w1)" using Some by (cases rw) auto
  show ?thesis
  proof (cases "r1 < 0 \<or> leave r1")
    case False
    then show ?thesis using assms L by (cases "R w1") (auto split: if_splits)
  qed (use assms(1) L in \<open>auto split: if_splits\<close>)
qed (use assms(1) in simp)

lemma breaking_negative:
  "(breaking stops node \<longrightarrow> (\<forall>w r w'. process_rules (call D) node p port w = Some (r, w') \<longrightarrow> r < 0)) \<and>
   (breaking_body stops node \<longrightarrow> (\<forall>w r w'. process_rules (call D) node p port w = Some (r, w') \<longrightarrow> r \<le> 0))"
proof (induction node)
  case (Node blk type left right action data)
  let ?pr = "\<lambda>n. process_rules (call D) n p port"
  have "r < 0" if b: "breaking stops (Node blk type left right action data)"
    and e: "?pr (Node blk type left right action data) w = Some (r, w')" for w r w'
  proof (cases type)
    case N_ACTION
    then show ?thesis using b e call_stops by (auto split: option.splits)
  next
    case N_SEQ
    with b consider "breaking stops left" | "breaking stops right" by auto
    then show ?thesis
    proof cases
      case 1
      then show ?thesis using e N_SEQ Node.IH(1) by (auto elim!: two_left_negative)
    next
      case 2
      have "(?pr left w \<bind> (\<lambda>(r, w). if r < 0 then Some (- 1, w) else if False then Some (0, w)
          else ?pr right w \<bind> (\<lambda>(r, w). if r < 0 then Some (- 1, w) else Some (0, w)))) = Some (r, w')"
        unfolding if_False using e N_SEQ by simp
      from two_right_negative [OF this] show ?thesis using 2 Node.IH(2) by blast
    qed
  next
    case N_IF
    then have b': "breaking_body stops left" "breaking stops right" using b by auto
    have "(?pr left w \<bind> (\<lambda>(r, w). if r < 0 then Some (- 1, w) else if r \<noteq> 0 then Some (0, w)
        else ?pr right w \<bind> (\<lambda>(r, w). if r < 0 then Some (- 1, w) else Some (0, w)))) = Some (r, w')"
      unfolding if_neq using e N_IF by simp
    from two_right_negative [OF this] show ?thesis using b' Node.IH by fastforce
  qed (use b in simp_all)
  moreover have "r \<le> 0" if b: "breaking_body stops (Node blk type left right action data)"
    and e: "?pr (Node blk type left right action data) w = Some (r, w')" for w r w'
  proof -
    have t: "type = N_COND" "breaking stops right" using b by (auto split: node_type.splits)
    have "(?pr left w \<bind> (\<lambda>(r, w). if r < 0 then Some (- 1, w) else if r = 0 then Some (0, w)
        else ?pr right w \<bind> (\<lambda>(r, w). if r < 0 then Some (- 1, w) else Some (1, w)))) = Some (r, w')"
      using e t by simp
    from two_right_negative [OF this] show ?thesis using t Node.IH(2) by fastforce
  qed
  ultimately show ?case by blast
qed simp

end


fun stops_action :: "action_fn \<Rightarrow> bool" where
  "stops_action (Act_out out) = True"
| "stops_action Act_drop = True"
| "stops_action _ = False"

interpretation rf: rule_functions run_action valid_action stops_action
proof
  show "\<exists>r w'. run_action D f p port w = Some (r, w') \<and> handled p ps w r w'"
    if "dpdk_ok D" "owns (p # ps) w" "roomy p w" "valid_action (length (queues_of w)) f" for D p ps w f port
    using that by (rule run_action_handled)
  show "r < 0" if "stops_action f" "run_action D f p port w = Some (r, w')" for f D p port w r w'
    using that by (cases f) (auto simp: action_out_def action_drop_def bind_eq_Some_conv)
qed

text \<open>
  C16. Ownership through the rules: on any tree of valid rules the interpreter returns, and its
  result tells who has the packet.  A negative result means that the packet was freed or
  queued, exactly once; any other result that it is still in hand.  No other packet is touched.
\<close>

theorem process_rules_ownership:
  assumes "dpdk_ok D" "owns (p # ps) w" "roomy p w"
    and "valid_node valid_action (length (queues_of w)) node"
  shows "\<exists>r w'. process_rules (run_action D) node p port w = Some (r, w') \<and> evolves ps w w' \<and>
    (if r < 0 then owns ps w' else owns (p # ps) w')"
proof -
  obtain r w' where 1: "process_rules (run_action D) node p port w = Some (r, w')" "handled p ps w r w'"
    using rf.process_rules_handled [OF assms] by blast
  then show ?thesis by (intro exI [of _ r] exI [of _ w']) (simp add: handled_def split: if_splits)
qed

text \<open>
  C15. Rules that end, on every path, in \<open>out\<close> or \<open>drop\<close> never leak a packet: the interpreter
  returns a negative result and the packet has been passed on.
\<close>

theorem breaking_rules_consume:
  assumes "dpdk_ok D" "owns (p # ps) w" "roomy p w"
    and "valid_node valid_action (length (queues_of w)) node" and "breaking stops_action node"
  shows "\<exists>r w'. process_rules (run_action D) node p port w = Some (r, w') \<and> r < 0 \<and> owns ps w'"
proof -
  obtain r w' where 1: "process_rules (run_action D) node p port w = Some (r, w')" "handled p ps w r w'"
    using rf.process_rules_handled [OF assms(1-4)] by blast
  then have "r < 0" using rf.breaking_negative assms(5) by blast
  with 1 show ?thesis by (auto simp: handled_def)
qed

section \<open>Padding\<close>

definition ip_len :: "bytes \<Rightarrow> nat" where
  "ip_len b = unat (bswap16 (rd16 b 16))"

text \<open>
  A frame as the NIC delivers it: one segment, whose buffer is big enough for the headers
  the code reads, and whose IPv4 total length is that of a header at least and stays in
  the buffer.
\<close>

definition frame_ok :: "rte_mbuf \<Rightarrow> bool" where
  "frame_ok m \<longleftrightarrow> 62 \<le> length (buf m) \<and> unat (pkt_len m) \<le> length (buf m) \<and>
     length (buf m) < 2 ^ 31 \<and> 20 \<le> ip_len (buf m) \<and> 14 + ip_len (buf m) \<le> length (buf m)"

lemma ucast_word_of_int: "ucast (word_of_int k :: u64) = (word_of_int k :: u32)"
  unfolding unsigned_of_int by (simp add: word_of_int_eq_iff)

lemma sint_in_range: "- (2 ^ 31) \<le> k \<Longrightarrow> k < 2 ^ 31 \<Longrightarrow> sint (word_of_int k :: u32) = k"
  by (simp add: int_word_sint)

lemma padding_len_eq:
  assumes "unat (pkt_len m) < 2 ^ 31"
  shows "padding_len m il = int (unat (pkt_len m)) - 14 - int (unat il)"
proof -
  let ?k = "uint (pkt_len m) - 14 - uint il"
  have e: "ucast (pkt_len m) - of_nat sizeof_ether_hdr - ucast il = (word_of_int ?k :: u64)"
    by simp
  have "ucast (ucast (pkt_len m) - of_nat sizeof_ether_hdr - ucast il :: u64) = (word_of_int ?k :: u32)"
    unfolding e by (rule ucast_word_of_int)
  then have "padding_len m il = sint (word_of_int ?k :: u32)" by (simp only: padding_len_def)
  also have "\<dots> = ?k"
  proof (rule sint_in_range)
    have "- (2 ^ 31) \<le> int b - 14 - int a \<and> int b - 14 - int a < 2 ^ 31"
      if "a < 65536" "b < 2 ^ 31" for a b :: nat using that by auto
    from this [OF unat_bounds(2) assms]
    have "- (2 ^ 31) \<le> ?k \<and> ?k < 2 ^ 31" by simp
    then show "- (2 ^ 31) \<le> ?k" "?k < 2 ^ 31" by blast+
  qed
  finally show ?thesis by simp
qed

text \<open>The frame with its padding cleared.\<close>

definition unpad :: "rte_mbuf \<Rightarrow> bytes" where
  "unpad m = (let n = 14 + ip_len (buf m) in
     if n < unat (pkt_len m) then wrn (buf m) n (replicate (unat (pkt_len m) - n) 0) else buf m)"

lemma fix_nexus9000_eq:
  assumes m: "mbufs w p = Some m" and len: "18 \<le> length (buf m)"
    and pl: "unat (pkt_len m) \<le> length (buf m)" "length (buf m) < 2 ^ 31"
  shows "fix_nexus9000_padding_bug p w = Some (set_pkt p (m\<lparr>buf := unpad m\<rparr>) w)"
proof -
  let ?tl = "bswap16 (rd16 (buf m) 16)"
  have pad: "padding_len m ?tl = int (unat (pkt_len m)) - 14 - int (unat ?tl)"
    by (rule padding_len_eq) (use pl in simp)
  have n: "nat (padding_len m ?tl) = unat (pkt_len m) - (14 + ip_len (buf m))"
    unfolding pad ip_len_def by linarith
  have ld: "pkt_ld16 p 16 w = Some (rd16 (buf m) 16)" using m len by (simp add: pkt_simps buf_simps)
  show ?thesis
  proof (cases "padding_len m ?tl > 0")
    case True
    then have "14 + ip_len (buf m) < unat (pkt_len m)" unfolding pad ip_len_def by linarith
    then show ?thesis using True m pl ld n
      by (simp add: fix_nexus9000_padding_bug_def unpad_def Let_def pkt_simps ip_len_def)
  next
    case False
    then have "\<not> 14 + ip_len (buf m) < unat (pkt_len m)" unfolding pad ip_len_def by linarith
    then show ?thesis using False m ld
      by (simp add: fix_nexus9000_padding_bug_def unpad_def Let_def set_pkt_same)
  qed
qed

lemma unpad_nth:
  assumes "unat (pkt_len m) \<le> length (buf m)"
  shows "unpad m ! k = (if 14 + ip_len (buf m) \<le> k \<and> k < unat (pkt_len m) then 0 else buf m ! k)"
    and "length (unpad m) = length (buf m)"
  using assms by (auto simp: unpad_def Let_def nth_wrn buf_simps)

text \<open>
  C34. The padding fix: whatever the two lengths are, it writes zeros to exactly the bytes of
  the frame behind the IPv4 packet, and to no other byte; when the IPv4 length claims more
  than the frame has, it writes nothing.
\<close>

theorem fix_nexus9000_clears_padding:
  assumes m: "mbufs w p = Some m" and len: "18 \<le> length (buf m)"
    and pl: "unat (pkt_len m) \<le> length (buf m)" "length (buf m) < 2 ^ 31"
  shows "\<exists>w' m'. fix_nexus9000_padding_bug p w = Some w' \<and> mbufs w' = (mbufs w)(p \<mapsto> m') \<and>
    length (buf m') = length (buf m) \<and>
    (\<forall>k. buf m' ! k = (if 14 + ip_len (buf m) \<le> k \<and> k < unat (pkt_len m) then 0 else buf m ! k))"
  using fix_nexus9000_eq [OF assms] unpad_nth [OF pl(1)]
  by (intro exI [of _ "set_pkt p (m\<lparr>buf := unpad m\<rparr>) w"] exI [of _ "m\<lparr>buf := unpad m\<rparr>"]) simp


section \<open>Echo replies are right\<close>

lemma cksum_ok_fill:
  assumes "even k" "k + 2 \<le> length b" "rd16 b k = 0" "oc_add c (oc_sum (words16 b)) = 0xffff"
  shows "cksum_ok (wr16 b k c)"
proof -
  have "wsum (wr16 b k c) = wsum b + unat c" using wsum_wr16 [OF assms(1,2), of c] assms(3) by simp
  moreover have "oc_rep (unat c + wsum b) = 65535"
    using arg_cong [OF assms(4), of unat] by (simp add: unat_oc_add unat_oc_sum oc_rep_absorb wsum_def)
  ultimately show ?thesis by (simp add: cksum_ok_wsum oc_rep_full add.commute)
qed

definition echo_headers :: "bytes \<Rightarrow> bytes" where
  "echo_headers b =
    (let b = wrn b 34 [0];
         b = wrn (wrn b 6 (rdn b 0 6)) 0 (rdn b 6 6)
     in wr16 (wr32 (wr32 b 26 (rd32 b 30)) 30 (rd32 b 26)) 24 0)"

definition echo_buf :: "dpdk \<Rightarrow> bytes \<Rightarrow> bytes" where
  "echo_buf D b =
    (let b1 = echo_headers b;
         b2 = wr16 (wr16 b1 24 (rte_ipv4_cksum D (rdn b1 14 20))) 36 0
     in wr16 b2 36 (NOT (rte_raw_cksum D (rdn b2 34 (ip_len b - 20)))))"

lemma unat_msg_len: "20 \<le> unat (l :: u16) \<Longrightarrow> unat (ucast l - 20 :: u64) = unat l - 20"
proof -
  assume "20 \<le> unat l"
  moreover have u: "unat (ucast l :: u64) = unat l"
    using unat_bounds(2) [of l] by (simp add: unsigned_ucast_eq take_bit_nat_eq_self_iff)
  ultimately show ?thesis by (subst unat_sub) (simp_all add: word_le_nat_alt)
qed

lemma icmp_echo_eq:
  assumes m: "mbufs w p = Some m" and ok: "frame_ok m"
  shows "icmp_echo D p port w = do {
    (n, w) \<leftarrow> tx_send D p port (unat port) (set_pkt p (m\<lparr>buf := echo_buf D (buf m)\<rparr>) w);
    Some (uint n, w) }"
proof -
  have "62 \<le> length (buf m)" "20 \<le> unat (bswap16 (rd16 (buf m) 16))"
      "34 + (unat (bswap16 (rd16 (buf m) 16)) - 20) \<le> length (buf m)"
    using ok by (auto simp: frame_ok_def ip_len_def)
  then show ?thesis using m
    by (simp add: icmp_echo_def pkt_simps buf_simps echo_buf_def echo_headers_def Let_def
        IP_ICMP_ECHO_REPLY_def unat_msg_len ip_len_def)
qed


lemma echo_headers_fields:
  assumes "62 \<le> length b"
  shows "length (echo_headers b) = length b" "rd16 (echo_headers b) 24 = 0"
    "rd16 (echo_headers b) 16 = rd16 b 16" "rdn (echo_headers b) 0 6 = rdn b 6 6"
    "rdn (echo_headers b) 6 6 = rdn b 0 6" "rd32 (echo_headers b) 26 = rd32 b 30"
    "rd32 (echo_headers b) 30 = rd32 b 26" "echo_headers b ! 34 = 0"
    "35 \<le> k \<Longrightarrow> echo_headers b ! k = b ! k"
  using assms by (simp_all add: echo_headers_def Let_def buf_simps)

lemma echo_buf_fields:
  assumes "62 \<le> length b"
  shows "length (echo_buf D b) = length b" "rdn (echo_buf D b) 0 6 = rdn b 6 6"
    "rdn (echo_buf D b) 6 6 = rdn b 0 6" "rd32 (echo_buf D b) 26 = rd32 b 30"
    "rd32 (echo_buf D b) 30 = rd32 b 26" "echo_buf D b ! 34 = 0"
    "38 \<le> k \<Longrightarrow> echo_buf D b ! k = b ! k"
  using assms by (simp_all add: echo_buf_def Let_def buf_simps echo_headers_fields)

lemma echo_buf_checksums:
  assumes D: "dpdk_cksum_ok D" and len: "62 \<le> length b" and n: "28 \<le> ip_len b" "14 + ip_len b \<le> length b"
  shows "cksum_ok (rdn (echo_buf D b) 14 20)" "cksum_ok (rdn (echo_buf D b) 34 (ip_len b - 20))"
proof -
  let ?h = "rdn (echo_headers b) 14 20" and ?n = "ip_len b - 20"
  note f = echo_headers_fields [OF len]
  have "rd16 ?h 2 \<noteq> 0"
  proof
    assume "rd16 ?h 2 = 0"
    then have "rd16 b 16 = 0" using len f by (simp add: buf_simps)
    then have "ip_len b = 0" by (simp add: ip_len_def bswap16_def le16_def byte_of_def)
    with n show False by simp
  qed
  then have "wsum ?h \<noteq> 0" using wsum_nonzero [of 2 ?h] len f by (simp add: buf_simps)
  then have "oc_sum (words16 ?h) \<noteq> 0"
    by (metis unat_oc_sum oc_rep_eq_0 wsum_def unat_0)
  then have "oc_add (rte_ipv4_cksum D ?h) (oc_sum (words16 ?h)) = 0xffff"
    using D len f by (simp add: dpdk_cksum_ok_def buf_simps)
  then have "cksum_ok (wr16 ?h 10 (rte_ipv4_cksum D ?h))"
    by (intro cksum_ok_fill) (use len f in \<open>simp_all add: buf_simps\<close>)
  then show "cksum_ok (rdn (echo_buf D b) 14 20)"
    using len f by (simp add: echo_buf_def Let_def buf_simps)
  let ?b2 = "wr16 (wr16 (echo_headers b) 24 (rte_ipv4_cksum D ?h)) 36 0"
  have "cksum_ok (wr16 (rdn ?b2 34 ?n) 2 (NOT (rte_raw_cksum D (rdn ?b2 34 ?n))))"
    using D n len f
    by (intro cksum_ok_fill) (simp_all add: dpdk_cksum_ok_def oc_add_NOT buf_simps)
  then show "cksum_ok (rdn (echo_buf D b) 34 ?n)"
    using n len f by (simp add: echo_buf_def Let_def buf_simps)
qed

text \<open>
  C24. The answer to an echo request: Ethernet and IPv4 addresses are exchanged, the type is
  echo reply, everything behind the ICMP checksum is the request's, the checksums of the header
  and of the ICMP message are right, and this packet is handed to the queue of the port the request
  came from.
\<close>

theorem icmp_echo_reply:
  assumes D: "dpdk_cksum_ok D" and m: "mbufs w p = Some m" and ok: "frame_ok m"
    and n: "28 \<le> ip_len (buf m)"
  shows "\<exists>m'. icmp_echo D p port w = do {
      (n, w) \<leftarrow> tx_send D p port (unat port) (set_pkt p m' w); Some (uint n, w) } \<and>
    rdn (buf m') 0 6 = rdn (buf m) 6 6 \<and> rdn (buf m') 6 6 = rdn (buf m) 0 6 \<and>
    rd32 (buf m') 26 = rd32 (buf m) 30 \<and> rd32 (buf m') 30 = rd32 (buf m) 26 \<and>
    buf m' ! 34 = IP_ICMP_ECHO_REPLY \<and> (\<forall>k \<ge> 38. buf m' ! k = buf m ! k) \<and>
    cksum_ok (rdn (buf m') 14 20) \<and> cksum_ok (rdn (buf m') 34 (ip_len (buf m) - 20))"
proof -
  have len: "62 \<le> length (buf m)" "14 + ip_len (buf m) \<le> length (buf m)" using ok by (simp_all add: frame_ok_def)
  show ?thesis
    using icmp_echo_eq [OF m ok, of D port] echo_buf_fields [OF len(1), where D = D]
      echo_buf_checksums [OF D len(1) n len(2)]
    by (intro exI [of _ "m\<lparr>buf := echo_buf D (buf m)\<rparr>"]) (simp add: IP_ICMP_ECHO_REPLY_def)
qed

text \<open>
  C39. The length of the ICMP message is not checked: on an echo request whose total length is
  below 20 the unsigned difference wraps to nearly \<open>2 ^ 64\<close>, and the checksum reads outside every
  buffer.  The handler has no defined result.
\<close>

theorem icmp_echo_short_length_undefined:
  assumes m: "mbufs w p = Some m" and len: "62 \<le> length (buf m)" "length (buf m) < 2 ^ 31"
    and short: "ip_len (buf m) < 20"
  shows "icmp_echo D p port w = None"
proof -
  let ?l = "bswap16 (rd16 (buf m) 16)"
  have u: "unat (ucast ?l :: u64) = unat ?l"
    using unat_bounds(2) [of ?l] by (simp add: unsigned_ucast_eq take_bit_nat_eq_self_iff)
  have l: "unat ?l < 20" using short by (simp add: ip_len_def)
  then have "unat (ucast ?l - 20 :: u64) = 2 ^ 64 - 20 + unat ?l"
    using u by (simp add: unat_sub_if_size word_size)
  then have "ldn b 34 (unat (ucast ?l - 20 :: u64)) = None" if "length b = length (buf m)" for b
    using len that by (simp add: ldn_def)
  then show ?thesis using m len
    by (simp add: icmp_echo_def pkt_simps buf_simps)
qed

section \<open>The contract of the handler\<close>

text \<open>
  A configuration the workers can use: an entry of \<open>ports\<close> for every device, and rules whose
  data is valid.
\<close>

definition config_ok :: "dpdk \<Rightarrow> nat \<Rightarrow> app_config \<Rightarrow> bool" where
  "config_ok D n c \<longleftrightarrow> rte_eth_dev_count D \<le> length (ports c) \<and> rte_eth_dev_count D < 256 \<and>
     rte_eth_dev_count D \<le> n \<and> valid_node valid_action n (rules c)"

definition frame_at :: "ptr \<Rightarrow> world \<Rightarrow> bool" where
  "frame_at p w \<longleftrightarrow> (\<forall>m. mbufs w p = Some m \<longrightarrow> frame_ok m)"

definition no_pass :: "app_config \<Rightarrow> bool" where
  "no_pass c \<longleftrightarrow> rules c = Null_node \<or> breaking stops_action (rules c)"

lemma is_natasha_ip_loop_ok:
  "\<forall>i \<in> set is. i < length (ports c) \<and> i < 256 \<Longrightarrow>
    is_natasha_ip_loop c ip vlan is =
      Some (\<exists>i \<in> set is. port_ip_match (ip_addresses (ports c ! i)) ip vlan)"
  by (induction "is") (auto simp: is_natasha_port_ip_def unat_of_nat)

lemma is_natasha_ip_ok:
  assumes "config_ok D n c"
  shows "is_natasha_ip D c ip vlan =
    Some (\<exists>i < rte_eth_dev_count D. port_ip_match (ip_addresses (ports c ! i)) ip vlan)"
  using assms is_natasha_ip_loop_ok [of "[0..<rte_eth_dev_count D]" c ip vlan]
  by (auto simp: is_natasha_ip_def config_ok_def)

lemma frame_ok_unpad: "frame_ok m \<Longrightarrow> frame_ok (m\<lparr>buf := unpad m\<rparr>)"
proof -
  assume ok: "frame_ok m"
  then have l: "length (unpad m) = length (buf m)" by (intro unpad_nth) (simp add: frame_ok_def)
  have "unpad m ! k = buf m ! k" if "k < 34" for k
    using ok that by (subst unpad_nth) (auto simp: frame_ok_def)
  then have "ip_len (unpad m) = ip_len (buf m)" by (simp add: ip_len_def rd16_def)
  with ok l show "frame_ok (m\<lparr>buf := unpad m\<rparr>)" by (simp add: frame_ok_def)
qed

lemma icmp_echo_consumes:
  assumes D: "dpdk_ok D" and own: "owns (p # ps) w" and fr: "frame_at p w"
    and port: "unat port < length (queues_of w)"
  shows "\<exists>r w'. icmp_echo D p port w = Some (r, w') \<and> 0 \<le> r \<and> owns ps w' \<and> evolves ps w w'"
proof -
  obtain m where m: "mbufs w p = Some m" using owns_live [OF own] by auto
  then have ok: "frame_ok m" using fr by (simp add: frame_at_def)
  obtain n w' where "tx_send D p port (unat port) (set_pkt p (m\<lparr>buf := echo_buf D (buf m)\<rparr>) w) = Some (n, w')"
      "owns ps w'" "evolves ps w w'"
    using tx.forge_and_send [OF D own port] by blast
  then show ?thesis using icmp_echo_eq [OF m ok, of D port] by simp
qed

text \<open>\<open>icmp_answer\<close>: -1 says that the packet is not for us and untouched, 0 that it is gone.\<close>

lemma icmp_answer_contract:
  assumes D: "dpdk_ok D" and own: "owns (p # ps) w" and fr: "frame_at p w"
    and port: "unat port < length (queues_of w)" and c: "config_ok D n (config_of w)"
  shows "icmp_answer D p port w = Some (- 1, w) \<or>
    (\<exists>w'. icmp_answer D p port w = Some (0, w') \<and> owns ps w' \<and> evolves ps w w')"
proof -
  obtain m where m: "mbufs w p = Some m" using owns_live [OF own] by auto
  then have len: "62 \<le> length (buf m)" using fr by (simp add: frame_at_def frame_ok_def)
  let ?ours = "\<exists>i < rte_eth_dev_count D. port_ip_match (ip_addresses (ports (config_of w) ! i))
    (bswap32 (rd32 (buf m) 30)) (VLAN_ID m)"
  let ?w' = "upd_stats (drop_unknown_icmp_update (\<lambda>n. n + 1))
    (w\<lparr>mbufs := (mbufs w)(p := None), freed := freed w @ [p]\<rparr>)"
  have free: "rte_pktmbuf_free p (upd_stats (drop_unknown_icmp_update (\<lambda>n. n + 1)) w) = Some ?w'"
    using m by (simp add: rte_pktmbuf_free_def upd_stats_def)
  have "handled p ps w (- 1) ?w'" by (rule handled_drop [OF own]) (simp_all add: drops_def)
  then have w': "owns ps ?w'" "evolves ps w ?w'" by (simp_all add: handled_def)
  obtain r w1 where e: "icmp_echo D p port w = Some (r, w1)" "0 \<le> r" "owns ps w1" "evolves ps w w1"
    using icmp_echo_consumes [OF D own fr port] by blast
  show ?thesis
    using m len free w' e
    by (cases "?ours"; cases "buf m ! 34 = IP_ICMP_ECHO_REQUEST")
      (simp_all add: icmp_answer_def icmp_dispatch_def is_natasha_ip_ok [OF c] pkt_simps buf_simps)
qed


lemma roomy_frame: "frame_at p w \<Longrightarrow> roomy p w"
  by (auto simp: frame_at_def roomy_def frame_ok_def)

lemma ipv4_handle_contract:
  assumes D: "dpdk_ok D" and own: "owns (p # ps) w" and fr: "frame_at p w"
    and port: "unat port < rte_eth_dev_count D" and c: "config_ok D (length (queues_of w)) (config_of w)"
  shows "\<exists>r w'. ipv4_handle D p port w = Some (r, w') \<and> evolves ps w w' \<and>
    (if r < 0 then owns (p # ps) w' \<and> rules (config_of w) = Null_node
     else owns ps w' \<or> \<not> no_pass (config_of w) \<and> owns (p # ps) w')"
proof -
  obtain m where m: "mbufs w p = Some m" using owns_live [OF own] by auto
  then have ok: "frame_ok m" using fr by (simp add: frame_at_def)
  define w1 where "w1 = set_pkt p (m\<lparr>buf := unpad m\<rparr>) w"
  have fx: "fix_nexus9000_padding_bug p w = Some w1"
    unfolding w1_def by (rule fix_nexus9000_eq [OF m]) (use ok in \<open>simp_all add: frame_ok_def\<close>)
  have w1: "owns (p # ps) w1" "frame_at p w1" "evolves ps w w1" "config_of w1 = config_of w" "queues_of w1 = queues_of w"
    using own frame_ok_unpad [OF ok] m owns_head [OF own] by (simp_all add: w1_def frame_at_def)
  have ld: "pkt_ld8 p 23 w1 = Some (unpad m ! 23)"
    using ok unpad_nth(2) [of m] by (simp add: w1_def pkt_simps buf_simps frame_ok_def)
  have port': "unat port < length (queues_of w1)" using port c w1 by (simp add: config_ok_def)
  have ans: "icmp_answer D p port w1 = Some (- 1, w1) \<or>
      (\<exists>w'. icmp_answer D p port w1 = Some (0, w') \<and> owns ps w' \<and> evolves ps w1 w')"
    by (rule icmp_answer_contract [OF D w1(1,2) port']) (use c w1 in simp)
  have v: "valid_node valid_action (length (queues_of w1)) (rules (config_of w))"
    using c w1 by (simp add: config_ok_def)
  obtain r w2 where 2: "process_rules (run_action D) (rules (config_of w)) p port w1 = Some (r, w2)"
      "handled p ps w1 r w2"
    using rf.process_rules_handled [OF D w1(1) roomy_frame [OF w1(2)] v] by blast
  have neg: "breaking stops_action (rules (config_of w)) \<Longrightarrow> r < 0"
    using rf.breaking_negative 2(1) by blast
  have rest: "\<exists>(r' :: int) w'. (if rules (config_of w) = Null_node then Some (- 1, w1)
        else do { (_, w) \<leftarrow> process_rules (run_action D) (rules (config_of w)) p port w1; Some (0, w) }) =
      Some (r', w') \<and> evolves ps w w' \<and>
      (if r' < 0 then owns (p # ps) w' \<and> rules (config_of w) = Null_node
       else owns ps w' \<or> \<not> no_pass (config_of w) \<and> owns (p # ps) w')"
    using w1 2 neg evolves_trans [OF w1(3)]
    by (cases "rules (config_of w) = Null_node") (auto simp: handled_def no_pass_def split: if_splits)
  have eq: "ipv4_handle D p port w = do {
      (ret, w) \<leftarrow> (if unpad m ! 23 = IPPROTO_ICMP then icmp_answer D p port w1 else Some (- 1, w1));
      if ret \<ge> 0 then Some (ret, w)
      else if rules (config_of w) = Null_node then Some (- 1, w)
      else do { (_, w) \<leftarrow> process_rules (run_action D) (rules (config_of w)) p port w; Some (0, w) } }"
    by (simp add: ipv4_handle_def fx ld)
  show ?thesis
  proof (cases "\<exists>w'. unpad m ! 23 = IPPROTO_ICMP \<and> icmp_answer D p port w1 = Some (0, w')")
    case True
    then show ?thesis using ans eq evolves_trans [OF w1(3)] by auto
  next
    case False
    then have "ipv4_handle D p port w = (if rules (config_of w) = Null_node then Some (- 1, w1)
        else do { (_, w) \<leftarrow> process_rules (run_action D) (rules (config_of w)) p port w1; Some (0, w) })"
      using eq ans w1(4) by (auto simp del: process_rules.simps)
    with rest show ?thesis by (simp del: process_rules.simps)
  qed
qed

section \<open>The interface of packet handlers\<close>

text \<open>
  What the dispatcher relies on: a handler returns; after a negative result the packet is
  still in hand, after any other it is gone.
\<close>

locale packet_handler =
  fixes handle :: "dpdk \<Rightarrow> ptr \<Rightarrow> u8 \<Rightarrow> world \<Rightarrow> (int \<times> world) option"
    and frame :: "ptr \<Rightarrow> world \<Rightarrow> bool"
  assumes contract: "dpdk_ok D \<Longrightarrow> owns (p # ps) w \<Longrightarrow> frame p w \<Longrightarrow>
    config_ok D (length (queues_of w)) (config_of w) \<Longrightarrow> no_pass (config_of w) \<Longrightarrow>
    unat port < rte_eth_dev_count D \<Longrightarrow>
    \<exists>r w'. handle D p port w = Some (r, w') \<and> evolves ps w w' \<and>
      (if r < 0 then owns (p # ps) w' else owns ps w')"
begin

text \<open>A client that counts and frees what a handler leaves consumes every packet.\<close>

lemma handle_or_drop:
  assumes "dpdk_ok D" "owns (p # ps) w" "frame p w" "config_ok D (length (queues_of w)) (config_of w)"
    "no_pass (config_of w)" "unat port < rte_eth_dev_count D" and f: "\<And>s. drops (f s) = drops s + 1"
  shows "\<exists>w'. do { (r, w) \<leftarrow> handle D p port w;
      if r < 0 then rte_pktmbuf_free p (upd_stats f w) else Some w } = Some w' \<and>
    owns ps w' \<and> evolves ps w w'"
proof -
  obtain r w1 where 1: "handle D p port w = Some (r, w1)" "evolves ps w w1"
      "if r < 0 then owns (p # ps) w1 else owns ps w1"
    using contract [OF assms(1-6)] by blast
  show ?thesis
  proof (cases "r < 0")
    case True
    then have own: "owns (p # ps) w1" using 1 by simp
    then obtain m where m: "mbufs w1 p = Some m" using owns_live by fastforce
    have "rte_pktmbuf_free p (upd_stats f w1) =
        Some (upd_stats f (w1\<lparr>mbufs := (mbufs w1)(p := None), freed := freed w1 @ [p]\<rparr>))"
      using m by (simp add: rte_pktmbuf_free_def upd_stats_def)
    then show ?thesis using 1 True handled_drop [OF own f, of "- 1"] evolves_trans [OF 1(2)]
      by (simp add: handled_def)
  qed (use 1 in simp)
qed

end

interpretation ip4: packet_handler ipv4_handle frame_at
proof
  show "\<exists>r w'. ipv4_handle D p port w = Some (r, w') \<and> evolves ps w w' \<and>
      (if r < 0 then owns (p # ps) w' else owns ps w')"
    if "dpdk_ok D" "owns (p # ps) w" "frame_at p w" "config_ok D (length (queues_of w)) (config_of w)"
      "no_pass (config_of w)" "unat port < rte_eth_dev_count D" for D p ps w port
    using ipv4_handle_contract [OF that(1-3) that(6) that(4)] that(5) by fastforce
qed


section \<open>Samples\<close>

text \<open>
  Rules that translate what comes from \<open>10.0.0.0/8\<close> and send it out of port 1, and drop the
  rest; an echo request from 10.0.0.9 to the router's 10.0.0.1.
\<close>

definition sample_out :: out_packet where
  "sample_out = \<lparr>out_port = 1, out_vlan = 0, next_hop = [2, 0, 0, 0, 0, 9]\<rparr>"

definition act_node :: "action_fn \<Rightarrow> app_config_node" where
  "act_node f = Node 0 N_ACTION Null_node Null_node (Some f) None"

definition sample_rules :: app_config_node where
  "sample_rules = Node 0 N_IF
    (Node 0 N_COND (act_node (Cond_ipv4_src_in_network \<lparr>net_ip = 0x0A000000, net_mask = 8\<rparr>))
      (Node 0 N_SEQ (act_node (Act_nat_rewrite 0)) (act_node (Act_out sample_out)) None None) None None)
    (act_node Act_drop) None None"

definition echo_pkt :: bytes where
  "echo_pkt =
   [2, 0, 0, 0, 0, 1, 2, 0, 0, 0, 0, 2, 8, 0,
    69, 0, 0, 48, 0, 0, 0, 0, 64, 1, 102, 196, 10, 0,
    0, 9, 10, 0, 0, 1, 8, 0, 157, 147, 0, 7, 0, 1,
    0, 1, 2, 3, 4, 5, 6, 7, 8, 9, 10, 11, 12, 13,
    14, 15, 16, 17, 18, 19]"

lemma sample_rules_ok: "valid_node valid_action 16 sample_rules" "breaking stops_action sample_rules"
  by (simp_all add: sample_rules_def act_node_def sample_out_def)

lemma owns_world0: "owns [0] (world0 c [m])"
  by (auto simp: owns_def shares_def has_room_def all_queued_def queued_def empty_queue_def
      queue_ok_def world0_def map_replicate_const concat_replicate_trivial split: if_splits)

lemma owns_sample_world: "owns [0] (sample_world b)"
  by (simp add: sample_world_def owns_world0)

theorem process_rules_ownership_witness:
  "\<exists>r w'. process_rules (run_action dpdk0) sample_rules 0 0 (sample_world tcp_pkt) = Some (r, w') \<and>
    (if r < 0 then owns [] w' else owns [0] w')"
  using process_rules_ownership [OF dpdk0_ok(1) owns_sample_world, of tcp_pkt sample_rules 0]
    sample_rules_ok(1) tcp_pkt_facts(1)
  by (fastforce simp: roomy_def sample_world_def mbuf_of_def)

theorem breaking_rules_consume_witness:
  "\<exists>r w'. process_rules (run_action dpdk0) sample_rules 0 0 (sample_world tcp_pkt) = Some (r, w') \<and>
    r < 0 \<and> owns [] w'"
  using breaking_rules_consume [OF dpdk0_ok(1) owns_sample_world, of tcp_pkt sample_rules 0]
    sample_rules_ok tcp_pkt_facts(1)
  by (fastforce simp: roomy_def sample_world_def mbuf_of_def)

lemma echo_pkt_facts: "ip_len echo_pkt = 48" "length echo_pkt = 62"
  by (simp_all add: echo_pkt_def ip_len_def rd16_def bswap16_def byte_of_def le16_def)

lemma frame_ok_echo: "frame_ok (mbuf_of echo_pkt)"
  using echo_pkt_facts by (simp add: frame_ok_def mbuf_of_def)

theorem icmp_echo_reply_witness:
  "\<exists>m'. icmp_echo dpdk0 0 1 (sample_world echo_pkt) = do {
      (n, w) \<leftarrow> tx_send dpdk0 0 1 (unat (1 :: u8)) (set_pkt 0 m' (sample_world echo_pkt)); Some (uint n, w) } \<and>
    buf m' ! 34 = 0 \<and> cksum_ok (rdn (buf m') 34 28)"
  using icmp_echo_reply [OF dpdk0_ok(2) _ frame_ok_echo, of "sample_world echo_pkt" 0 1] echo_pkt_facts
  by (auto simp: IP_ICMP_ECHO_REPLY_def)

text \<open>The request with a total length of 10.\<close>

definition short_echo_pkt :: bytes where
  "short_echo_pkt = wr16 echo_pkt 16 (bswap16 10)"

theorem icmp_echo_short_length_undefined_witness:
  "ip_len short_echo_pkt = 10 \<and> icmp_echo dpdk0 0 1 (sample_world short_echo_pkt) = None"
proof -
  have l: "length short_echo_pkt = 62" "ip_len short_echo_pkt = 10"
    using echo_pkt_facts by (simp_all add: short_echo_pkt_def buf_simps ip_len_def)
  then show ?thesis
    using icmp_echo_short_length_undefined [of "sample_world short_echo_pkt" 0 "mbuf_of short_echo_pkt" dpdk0 1]
    by simp
qed

text \<open>The request with two bytes of padding that are not zero.\<close>

theorem fix_nexus9000_clears_padding_witness:
  "\<exists>w' m'. fix_nexus9000_padding_bug 0 (sample_world (echo_pkt @ [7, 7])) = Some w' \<and>
    mbufs w' 0 = Some m' \<and> buf m' ! 62 = 0 \<and> buf m' ! 63 = 0 \<and> buf m' ! 61 = 19"
proof -
  let ?b = "echo_pkt @ [7, 7]"
  have l: "length ?b = 64" "ip_len ?b = 48" "pkt_len (mbuf_of ?b) = 64" "?b ! 61 = 19"
    by (simp_all add: echo_pkt_def ip_len_def rd16_def bswap16_def byte_of_def le16_def mbuf_of_def)
  show ?thesis
    using fix_nexus9000_clears_padding [of "sample_world ?b" 0 "mbuf_of ?b"] l by auto
qed

end
