(* ===== verification/Nat_Rules.thy ===== *)
theory Nat_Rules
  imports Nat_Table
begin

text \<open>
  What the NAT rules of a configuration mean: the interface of a rule table as a locale,
  its interpretation on the three-level table of \<open>src/src/action_nat.c\<close>, and the
  correctness of a table built from a list of rules (each rule readable in both
  directions, translation an involution, every rule counted once, every block freed
  once).
\<close>

section \<open>A list of rules\<close>

text \<open>
  The semantic action of \<open>config_nat_rule\<close> in \<open>src/src/parseconfig.y\<close>, for
  the rules of a configuration in order; a negative result is the parser's
  \<open>YYERROR\<close>.
\<close>

fun config_nat_rules ::
  "nat \<Rightarrow> nat_lookup \<Rightarrow> (u32 \<times> u32) list \<Rightarrow> heap \<Rightarrow> (int \<times> nat_lookup \<times> heap) option" where
  "config_nat_rules addr t [] h = Some (0, t, h)"
| "config_nat_rules addr t ((frm, to) # rs) h = do {
     (r, t, h) \<leftarrow> add_rules_to_table addr t frm to h;
     if r < 0 then Some (-1, t, h) else config_nat_rules addr t rs h }"

text \<open>Every address occurs once, and none is 0.0.0.0 (an absent entry of the table).\<close>

definition good_rules :: "(u32 \<times> u32) list \<Rightarrow> bool" where
  "good_rules rs \<longleftrightarrow> distinct (map fst rs @ map snd rs) \<and> 0 \<notin> set (map fst rs @ map snd rs)"

definition rule_pairs :: "(u32 \<times> u32) list \<Rightarrow> (u32 \<times> u32) list" where
  "rule_pairs rs = concat (map (\<lambda>(a, b). [(a, bswap32 b), (b, bswap32 a)]) rs)"

lemma rule_pairs_simps [simp]:
  "rule_pairs [] = []"
  "rule_pairs ((a, b) # rs) = (a, bswap32 b) # (b, bswap32 a) # rule_pairs rs"
  by (simp_all add: rule_pairs_def)

lemma good_rules_Cons [simp]:
  "good_rules ((a, b) # rs) \<longleftrightarrow> a \<noteq> b \<and> a \<noteq> 0 \<and> b \<noteq> 0 \<and>
    a \<notin> set (map fst rs @ map snd rs) \<and> b \<notin> set (map fst rs @ map snd rs) \<and> good_rules rs"
  by (auto simp: good_rules_def)

lemma fst_set_rule_pairs: "fst ` set (rule_pairs rs) = set (map fst rs @ map snd rs)"
proof (induction rs)
  case (Cons r rs)
  then show ?case by (cases r) (simp add: insert_commute)
qed simp

lemma distinct_rule_pairs: "good_rules rs \<Longrightarrow> distinct (map fst (rule_pairs rs))"
proof (induction rs)
  case (Cons r rs)
  then show ?case
    using fst_set_rule_pairs [of rs] by (cases r) auto
qed simp

lemma length_rule_pairs: "length (rule_pairs rs) = 2 * length rs"
  by (induction rs) auto

lemma rule_pairs_symmetric:
  "(a, v) \<in> set (rule_pairs rs) \<Longrightarrow> (bswap32 v, bswap32 a) \<in> set (rule_pairs rs)"
  by (induction rs) auto

section \<open>The interface of a rule table\<close>

locale rule_table =
  fixes ins :: "'t \<Rightarrow> u32 \<Rightarrow> u32 \<Rightarrow> 't"
    and lookup :: "'t \<Rightarrow> u32 \<Rightarrow> u32 option"
    and invar :: "'t \<Rightarrow> bool"
  assumes invar_ins: "invar t \<Longrightarrow> invar (ins t k v)"
    and lookup_ins: "invar t \<Longrightarrow> v \<noteq> 0 \<Longrightarrow> lookup (ins t k v) = (lookup t)(k \<mapsto> v)"
begin

definition add_pair :: "u32 \<times> u32 \<Rightarrow> 't \<Rightarrow> 't" where
  "add_pair r t = (case r of (a, b) \<Rightarrow> ins (ins t a (bswap32 b)) b (bswap32 a))"

lemma invar_add_pair: "invar t \<Longrightarrow> invar (add_pair r t)"
  by (cases r) (simp add: add_pair_def invar_ins)

lemma invar_add_pairs: "invar t \<Longrightarrow> invar (fold add_pair rs t)"
  by (induction rs arbitrary: t) (simp_all add: invar_add_pair)

lemma lookup_add_pairs:
  "invar t \<Longrightarrow> good_rules rs \<Longrightarrow>
    lookup (fold add_pair rs t) = lookup t ++ map_of (rule_pairs rs)"
proof (induction rs arbitrary: t)
  case Nil
  then show ?case by simp
next
  case (Cons r rs)
  obtain a b where r: "r = (a, b)" by (cases r)
  have "lookup (fold add_pair (r # rs) t) = lookup (add_pair r t) ++ map_of (rule_pairs rs)"
    using Cons r by (simp add: invar_add_pair)
  also have "lookup (add_pair r t) = (lookup t)(a \<mapsto> bswap32 b, b \<mapsto> bswap32 a)"
    using Cons.prems r by (simp add: add_pair_def lookup_ins invar_ins)
  also have "\<dots> ++ map_of (rule_pairs rs) = lookup t ++ map_of (rule_pairs (r # rs))"
  proof -
    have "a \<notin> dom (map_of (rule_pairs rs))" "b \<notin> dom (map_of (rule_pairs rs))" "a \<noteq> b"
      using Cons.prems(2) r fst_set_rule_pairs [of rs] by (auto simp: dom_map_of_conv_image_fst)
    then show ?thesis
      using r by (auto simp: fun_eq_iff map_add_def split: option.splits)
  qed
  finally show ?case .
qed

lemma lookup_built:
  assumes "invar t" and "lookup t = (\<lambda>_. None)" and "good_rules rs"
  shows "lookup (fold add_pair rs t) = map_of (rule_pairs rs)"
  using lookup_add_pairs [OF assms(1,3)] assms(2) by simp

lemma built_involution:
  assumes "invar t" and "lookup t = (\<lambda>_. None)" and "good_rules rs"
    and "lookup (fold add_pair rs t) a = Some v"
  shows "lookup (fold add_pair rs t) (bswap32 v) = Some (bswap32 a)"
  using assms(4) distinct_rule_pairs [OF assms(3)]
  unfolding lookup_built [OF assms(1-3)]
  by (auto dest!: map_of_SomeD rule_pairs_symmetric)

lemma built_card:
  assumes "invar t" and "lookup t = (\<lambda>_. None)" and "good_rules rs"
  shows "card (dom (lookup (fold add_pair rs t))) = 2 * length rs"
proof -
  have "dom (lookup (fold add_pair rs t)) = set (map fst (rule_pairs rs))"
    by (simp add: lookup_built [OF assms] dom_map_of_conv_image_fst)
  then show ?thesis
    using distinct_card [OF distinct_rule_pairs [OF assms(3)]] by (simp add: length_rule_pairs)
qed

end

section \<open>The three-level table is a rule table\<close>

text \<open>
  The state is the table with the heap it lives in, under an allocator that does not
  fail; what happens when it fails is stated separately below.
\<close>

definition tbl_insert :: "nat_lookup \<times> heap \<Rightarrow> u32 \<Rightarrow> u32 \<Rightarrow> nat_lookup \<times> heap" where
  "tbl_insert th k v =
    (case add_rule_to_table (fst th) k v (snd th) of None \<Rightarrow> th | Some th' \<Rightarrow> th')"

definition tbl_invar :: "nat_lookup \<times> heap \<Rightarrow> bool" where
  "tbl_invar th \<longleftrightarrow> table_ok (fst th) (snd th) \<and> (\<forall>n. alloc_ok (snd th) n)"

lemma tbl_insert_ok:
  assumes "tbl_invar th"
  shows "add_rule_to_table (fst th) k v (snd th) = Some (tbl_insert th k v)"
    and "tbl_invar (tbl_insert th k v)"
    and "nat_lookup_ip (fst (tbl_insert th k v)) =
      (nat_lookup_ip (fst th))(k := if v = 0 then None else Some v)"
    and "live (snd (tbl_insert th k v)) - ran (block_at (fst (tbl_insert th k v))) =
      live (snd th) - ran (block_at (fst th))"
proof -
  from assms obtain t' h' where
    "add_rule_to_table (fst th) k v (snd th) = Some (Some t', h')"
    "table_ok (Some t') h'" "alloc_ok h' = alloc_ok (snd th)"
    "live h' - ran (block_at (Some t')) = live (snd th) - ran (block_at (fst th))"
    "nat_lookup_ip (Some t') = (nat_lookup_ip (fst th))(k := if v = 0 then None else Some v)"
    using add_rule_to_table_ok [of "fst th" "snd th" k v] by (auto simp: tbl_invar_def)
  moreover from this(1) have "tbl_insert th k v = (Some t', h')" by (simp add: tbl_insert_def)
  ultimately show "add_rule_to_table (fst th) k v (snd th) = Some (tbl_insert th k v)"
    "tbl_invar (tbl_insert th k v)"
    "nat_lookup_ip (fst (tbl_insert th k v)) =
      (nat_lookup_ip (fst th))(k := if v = 0 then None else Some v)"
    "live (snd (tbl_insert th k v)) - ran (block_at (fst (tbl_insert th k v))) =
      live (snd th) - ran (block_at (fst th))"
    using assms by (simp_all add: tbl_invar_def)
qed

interpretation nat_tbl: rule_table tbl_insert "\<lambda>th. nat_lookup_ip (fst th)" tbl_invar
  by unfold_locales (simp_all add: tbl_insert_ok)

lemma add_rules_built:
  assumes "addr \<noteq> 0" and "tbl_invar th"
  shows "add_rules_to_table addr (fst th) a b (snd th) =
    Some (0, fst (nat_tbl.add_pair (a, b) th), snd (nat_tbl.add_pair (a, b) th))"
  using assms
  by (simp add: add_rules_to_table_def tbl_insert_ok nat_tbl.add_pair_def case_prod_unfold)

lemma config_nat_rules_built:
  assumes "addr \<noteq> 0" and "tbl_invar th"
  shows "config_nat_rules addr (fst th) rs (snd th) =
    Some (0, fst (fold nat_tbl.add_pair rs th), snd (fold nat_tbl.add_pair rs th))"
  using assms(2)
proof (induction rs arbitrary: th)
  case Nil
  then show ?case by simp
next
  case (Cons r rs)
  obtain a b where r: "r = (a, b)" by (cases r)
  have "add_rules_to_table addr (fst th) a b (snd th) =
      Some (0, fst (nat_tbl.add_pair r th), snd (nat_tbl.add_pair r th))"
    using add_rules_built [OF assms(1) Cons.prems, of a b] r by simp
  then show ?case
    using Cons r by (simp add: nat_tbl.invar_add_pair case_prod_unfold)
qed

lemma live_add_pairs:
  assumes "tbl_invar th"
  shows "live (snd (fold nat_tbl.add_pair rs th)) - ran (block_at (fst (fold nat_tbl.add_pair rs th))) =
    live (snd th) - ran (block_at (fst th))"
  using assms
proof (induction rs arbitrary: th)
  case Nil
  then show ?case by simp
next
  case (Cons r rs)
  then show ?case
    by (cases r) (simp add: nat_tbl.add_pair_def tbl_insert_ok nat_tbl.invar_add_pair)
qed

section \<open>Properties of a table built from rules\<close>

text \<open>The state of the table variable before any rule was parsed.\<close>

lemma built_from_empty:
  assumes "addr \<noteq> 0" and "heap_ok h" and "\<And>n. alloc_ok h n" and "good_rules rs"
  obtains t h' where "config_nat_rules addr None rs h = Some (0, t, h')"
    and "nat_lookup_ip t = map_of (rule_pairs rs)"
    and "card (dom (nat_lookup_ip t)) = 2 * length rs"
proof -
  have i: "tbl_invar (None, h)" using assms(2,3) by (simp add: tbl_invar_def)
  have e: "nat_lookup_ip (fst (None :: nat_lookup, h)) = (\<lambda>_. None)"
    by (simp add: nat_lookup_ip_def fun_eq_iff)
  show thesis
  proof (rule that)
    show "config_nat_rules addr None rs h = Some (0, fst (fold nat_tbl.add_pair rs (None, h)),
        snd (fold nat_tbl.add_pair rs (None, h)))"
      using config_nat_rules_built [OF assms(1) i, of rs] by simp
  qed (fact nat_tbl.lookup_built [OF i e assms(4)] nat_tbl.built_card [OF i e assms(4)])+
qed

text \<open>
  C9.  Correctness of the NAT table: after the rules of a configuration have been added to
  an empty table (with memory available and every address used once), the table
  translates each rule in both directions, to the partner address in network order, and
  no other address.
\<close>

theorem nat_rules_translate:
  assumes "addr \<noteq> 0" and "heap_ok h" and "\<And>n. alloc_ok h n" and "good_rules rs"
  shows "\<exists>t h'. config_nat_rules addr None rs h = Some (0, t, h') \<and>
    (\<forall>a b. (a, b) \<in> set rs \<longrightarrow>
      nat_lookup_ip t a = Some (bswap32 b) \<and> nat_lookup_ip t b = Some (bswap32 a)) \<and>
    (\<forall>ip. ip \<notin> fst ` set rs \<union> snd ` set rs \<longrightarrow> nat_lookup_ip t ip = None)"
proof -
  from assms obtain t h' where *: "config_nat_rules addr None rs h = Some (0, t, h')"
    "nat_lookup_ip t = map_of (rule_pairs rs)" by (rule built_from_empty)
  have "(a, bswap32 b) \<in> set (rule_pairs rs) \<and> (b, bswap32 a) \<in> set (rule_pairs rs)"
    if "(a, b) \<in> set rs" for a b
    using that by (force simp: rule_pairs_def)
  moreover have "map_of (rule_pairs rs) ip = None" if "ip \<notin> fst ` set rs \<union> snd ` set rs" for ip
    using that fst_set_rule_pairs [of rs] by (simp add: map_of_eq_None_iff)
  ultimately show ?thesis
    using * distinct_rule_pairs [OF assms(4)] by (auto intro!: exI [of _ t] exI [of _ h'])
qed

definition heap0 :: heap where
  "heap0 = \<lparr>next_addr = 1, live = {}, alloc_ok = (\<lambda>_. True)\<rparr>"

lemma heap0_simps [simp]: "heap_ok heap0" "alloc_ok heap0 n" "live heap0 = {}"
  by (simp_all add: heap0_def heap_ok_def)

theorem nat_rules_translate_witness:
  "good_rules [(0x0A000102, 0xD4303132)] \<and>
   (\<exists>t h'. config_nat_rules 1 None [(0x0A000102, 0xD4303132)] heap0 = Some (0, t, h') \<and>
     nat_lookup_ip t 0x0A000102 = Some (bswap32 0xD4303132))"
proof -
  have g: "good_rules [(0x0A000102, 0xD4303132)]" by (simp add: good_rules_def)
  show ?thesis
    using nat_rules_translate [of 1 heap0 "[(0x0A000102, 0xD4303132)]"] g by auto
qed



text \<open>
  C33.  The number of rules that is reported after a reload is the number of rules of the
  configuration, although every rule is stored twice: the count over all slots,
  halved, is the length of the rule list.
\<close>

theorem nat_number_of_rules_built:
  assumes "addr \<noteq> 0" and "heap_ok h" and "\<And>n. alloc_ok h n" and "good_rules rs"
    and "config_nat_rules addr None rs h = Some (r, t, h')"
  shows "nat_number_of_rules t = length rs"
proof -
  from assms(1-4) obtain t' h'' where "config_nat_rules addr None rs h = Some (0, t', h'')"
    "card (dom (nat_lookup_ip t')) = 2 * length rs" by (rule built_from_empty)
  with assms(5) show ?thesis by (simp add: nat_number_of_rules_card)
qed

theorem nat_number_of_rules_built_witness:
  "\<exists>t h'. config_nat_rules 1 None [(1, 2), (3, 4), (5, 6)] heap0 = Some (0, t, h') \<and>
    nat_number_of_rules t = 3"
proof -
  have g: "good_rules [(1, 2), (3, 4), (5, 6)]" by (simp add: good_rules_def)
  obtain t h' where t: "config_nat_rules 1 None [(1, 2), (3, 4), (5, 6)] heap0 = Some (0, t, h')"
    by (rule built_from_empty [of 1 heap0 "[(1, 2), (3, 4), (5, 6)]"]) (use g in simp_all)
  with nat_number_of_rules_built [OF _ _ _ g t] show ?thesis by auto
qed

text \<open>
  C22.  Memory: freeing a table built from any rules (repeated addresses included) frees
  every block of the table exactly once, so the set of live blocks is what it was before
  the first rule: no leak and no double free.
\<close>

theorem nat_table_no_leak:
  assumes "addr \<noteq> 0" and "heap_ok h" and "\<And>n. alloc_ok h n"
  shows "\<exists>t h' h''. config_nat_rules addr None rs h = Some (0, t, h') \<and>
    nat_reset_lookup_table t h' = Some h'' \<and> live h'' = live h"
proof -
  have i: "tbl_invar (None, h)" using assms(2,3) by (simp add: tbl_invar_def)
  obtain t h' where th: "fold nat_tbl.add_pair rs (None, h) = (t, h')" by fastforce
  have "config_nat_rules addr None rs h = Some (0, t, h')"
    using config_nat_rules_built [OF assms(1) i, of rs] th by simp
  moreover have "table_ok t h'"
    using nat_tbl.invar_add_pairs [OF i, of rs] th by (simp add: tbl_invar_def)
  moreover have "live h' - ran (block_at t) = live h"
    using live_add_pairs [OF i, of rs] th by simp
  ultimately show ?thesis by (simp add: nat_reset_ok)
qed

theorem nat_table_no_leak_witness:
  "\<exists>t h' h''. config_nat_rules 1 None [(1, 2), (1, 3)] heap0 = Some (0, t, h') \<and>
    nat_reset_lookup_table t h' = Some h'' \<and> live h'' = {}"
  using nat_table_no_leak [of 1 heap0 "[(1, 2), (1, 3)]"] by simp

text \<open>
  C40.  Allocation failure: \<open>add_rules_to_table\<close> documents -1 on failure, but its null
  tests look at the address of the table variable.  When memory runs out while a rule
  needs a new row, the table of all earlier rules is released and the function still
  returns 0; the blocks below the released root stay allocated.
\<close>

theorem add_rules_failure_reports_success:
  assumes "addr \<noteq> 0" and "table_ok (Some t) h" and "\<And>n. \<not> alloc_ok h n"
    and "first_ent t (fstb int_ip) = None"
  shows "\<exists>h'. add_rules_to_table addr (Some t) int_ip ext_ip h = Some (0, None, h') \<and>
    live h' = live h - {first_addr t}"
proof -
  have "first_addr t \<in> live h"
    using assms(2) ranI [of "block_at (Some t)" Root] by (auto simp: table_ok_def)
  then show ?thesis
    using assms(1,3,4)
    by (simp add: add_rules_to_table_def add_rule_to_table_def ensure_first_def ensure_second_def
        rte_zmalloc_def rte_free_def Let_def)
qed

theorem add_rules_failure_reports_success_witness:
  "\<exists>h'. add_rules_to_table 1 (Some \<lparr>first_addr = 0, first_ent = (\<lambda>_. None)\<rparr>) 0x0A000102 0xD4303132
      \<lparr>next_addr = 1, live = {0}, alloc_ok = (\<lambda>_. False)\<rparr> = Some (0, None, h') \<and> live h' = {}"
proof -
  let ?t = "\<lparr>first_addr = 0, first_ent = (\<lambda>_. None)\<rparr>"
  let ?h = "\<lparr>next_addr = 1, live = {0}, alloc_ok = (\<lambda>_. False)\<rparr>"
  have "block_at (Some ?t) = [Root \<mapsto> 0]"
  proof
    fix sl show "block_at (Some ?t) sl = [Root \<mapsto> 0] sl" by (cases sl) simp_all
  qed
  then have "table_ok (Some ?t) ?h" by (simp add: table_ok_def heap_ok_def)
  then show ?thesis
    using add_rules_failure_reports_success [of 1 ?t ?h "0x0A000102" "0xD4303132"] by simp
qed

text \<open>
  The dump of the rules prints the mapped address as it is stored, in network order:
  on a little-endian host the bytes of the right-hand address come out reversed.
\<close>

theorem nat_dump_reverses_target:
  assumes "nat_lookup_ip t ip = Some v"
  shows "IPv4_FMT ip @ '' -> '' @ IPv4_FMT v @ [CHR 0x0A] \<in> set (snd (nat_dump_rules t))"
proof -
  have f: "fold (\<lambda>(a, b). nat_dump_rule a b) es out =
      out @ map (\<lambda>(a, b). IPv4_FMT a @ '' -> '' @ IPv4_FMT b @ [CHR 0x0A]) es" for es out
    by (induction es arbitrary: out) (auto simp: nat_dump_rule_def)
  have "(ip, v) \<in> set (entries_of t all_keys)"
    using assms set_all_keys by (force simp: entries_of_def List.map_filter_def)
  then show ?thesis
    by (force simp: nat_dump_rules_def nat_iter_entries run_entries_def f)
qed

theorem nat_dump_reverses_target_witness:
  "\<exists>t h'. config_nat_rules 1 None [(0x0A000102, 0xD4303132)] heap0 = Some (0, t, h') \<and>
    ''10.0.1.2 -> 50.49.48.212'' @ [CHR 0x0A] \<in> set (snd (nat_dump_rules t))"
proof -
  have g: "good_rules [(0x0A000102, 0xD4303132)]" by (simp add: good_rules_def)
  obtain t h' where t: "config_nat_rules 1 None [(0x0A000102, 0xD4303132)] heap0 = Some (0, t, h')"
      "nat_lookup_ip t = map_of (rule_pairs [(0x0A000102, 0xD4303132)])"
    by (rule built_from_empty [of 1 heap0 "[(0x0A000102, 0xD4303132)]"]) (use g in simp_all)
  have "nat_lookup_ip t 0x0A000102 = Some (bswap32 0xD4303132)" using t(2) by simp
  moreover have "IPv4_FMT 0x0A000102 = ''10.0.1.2''" "IPv4_FMT (bswap32 0xD4303132) = ''50.49.48.212''"
    by code_simp+
  ultimately show ?thesis
    using t(1) nat_dump_reverses_target [of t "0x0A000102" "bswap32 0xD4303132"] by auto
qed

end
