(* ===== verification/Parse_Config.thy ===== *)
theory Parse_Config
  imports Ipv4 Nat_Rules "HOL-Library.Multiset"
begin

text \<open>
  From the configuration file to the structures of a worker: the semantic actions of
  the grammar \<open>src/src/parseconfig.y\<close>.

  The LALR automaton and the scanner are generated by bison and flex; what they hand
  to the semantic actions is a parse tree, and the datatypes below have one constructor
  per production.  The actions are functions on parse trees and on the heap, in the
  order in which a bottom-up parser reduces: the parts of a production from left to
  right, then the production.  \<open>YYERROR\<close> (memory exhausted, or a port number out of
  range) ends the parse with the result 1; the grammar has no error productions and no
  destructors, so what was built but not yet stored in the configuration is lost.

  The meaning of the rules is given twice: by \<open>process_rules\<close> on the tree the parser
  builds, and by the functions \<open>cond_sem\<close> and \<open>stmts_sem\<close> directly on the text of the
  configuration, as \<open>docs/CONFIGURATION.md\<close> explains it; both agree.
\<close>

named_theorems build_simps \<open>successful allocation sequences\<close>

section \<open>Parse trees\<close>

datatype cond_expr =
    E_and cond_expr cond_expr
  | E_or cond_expr cond_expr
  | E_paren cond_expr
  | E_in_network int ipv4_network
  | E_vlan int

datatype stmt =
    St_empty
  | St_if cond_expr "stmt list" "stmt list option"
  | St_nat_rewrite int
  | St_out int bytes "int option"
  | St_print
  | St_drop

text \<open>\<open>port N [mtu M] [vlan V] ip IP [[vlan V] ip IP ...];\<close>, a NAT rule, or a lone semicolon.\<close>

datatype config_line =
    L_empty
  | L_port int "int option" "int option" u32 "(int option \<times> u32) list"
  | L_nat_rule u32 u32

datatype config_item =
    Config_section "config_line list"
  | Rules_section "stmt list"

section \<open>Building rule trees\<close>

type_synonym 'a build = "heap \<Rightarrow> 'a option \<times> heap"

definition and_then :: "'a build \<Rightarrow> ('a \<Rightarrow> 'b build) \<Rightarrow> 'b build" where
  "and_then m f h = (case m h of (None, h) \<Rightarrow> (None, h) | (Some a, h) \<Rightarrow> f a h)"

definition done_with :: "'a \<Rightarrow> 'a build" where
  "done_with a h = (Some a, h)"

text \<open>An inner node; an \<open>ACTION\<close> node without data; one whose data is a second block.\<close>

definition inner_node :: "node_type \<Rightarrow> app_config_node \<Rightarrow> app_config_node \<Rightarrow> app_config_node build" where
  "inner_node type left right =
    and_then rte_zmalloc (\<lambda>node. done_with (Node node type left right None None))"

definition plain_action :: "action_fn \<Rightarrow> app_config_node build" where
  "plain_action f =
    and_then rte_zmalloc (\<lambda>node. done_with (Node node N_ACTION Null_node Null_node (Some f) None))"

definition data_action :: "action_fn \<Rightarrow> app_config_node build" where
  "data_action f =
    and_then rte_zmalloc (\<lambda>node. and_then rte_zmalloc (\<lambda>data.
      done_with (Node node N_ACTION Null_node Null_node (Some f) (Some data))))"

definition in_network_fn :: "int \<Rightarrow> ipv4_network \<Rightarrow> action_fn" where
  "in_network_fn field net =
    (if field = IPV4_SRC_ADDR then Cond_ipv4_src_in_network net else Cond_ipv4_dst_in_network net)"

definition nat_rewrite_fn :: "int \<Rightarrow> action_fn" where
  "nat_rewrite_fn field = Act_nat_rewrite (if field = IPV4_SRC_ADDR then IPV4_SRC_ADDR else IPV4_DST_ADDR)"

definition opt_vlan :: "int option \<Rightarrow> int" where
  "opt_vlan v = (case v of None \<Rightarrow> 0 | Some vlan \<Rightarrow> vlan)"

definition out_fn :: "int \<Rightarrow> bytes \<Rightarrow> int option \<Rightarrow> action_fn" where
  "out_fn port mac vlan = Act_out \<lparr>out_port = of_int port, out_vlan = opt_vlan vlan, next_hop = mac\<rparr>"

fun cond :: "cond_expr \<Rightarrow> app_config_node build" where
  "cond (E_and lhs rhs) = and_then (cond lhs) (\<lambda>l. and_then (cond rhs) (\<lambda>r. inner_node N_AND l r))"
| "cond (E_or lhs rhs) = and_then (cond lhs) (\<lambda>l. and_then (cond rhs) (\<lambda>r. inner_node N_OR l r))"
| "cond (E_paren c) = cond c"
| "cond (E_in_network field net) = data_action (in_network_fn field net)"
| "cond (E_vlan vlan) = data_action (Cond_vlan vlan)"

text \<open>The production \<open>rules_content: rules_content rules_stmt\<close>.\<close>

definition append_stmt :: "app_config_node \<Rightarrow> app_config_node \<Rightarrow> app_config_node build" where
  "append_stmt prev new =
    (if prev = Null_node then done_with new
     else if new = Null_node then done_with prev
     else inner_node N_SEQ prev new)"

definition if_nodes :: "app_config_node \<Rightarrow> app_config_node \<Rightarrow> app_config_node \<Rightarrow> app_config_node build" where
  "if_nodes what body els =
    and_then rte_zmalloc (\<lambda>if_node. and_then rte_zmalloc (\<lambda>cond_node.
      done_with (Node if_node N_IF (Node cond_node N_COND what body None None) els None None)))"

fun rules_stmt :: "stmt \<Rightarrow> app_config_node build"
  and opt_else :: "stmt list option \<Rightarrow> app_config_node build"
  and rules_content :: "app_config_node \<Rightarrow> stmt list \<Rightarrow> app_config_node build" where
  "rules_stmt St_empty = done_with Null_node"
| "rules_stmt (St_if what body els) =
    and_then (cond what) (\<lambda>c. and_then (rules_content Null_node body) (\<lambda>b.
      and_then (opt_else els) (\<lambda>e. if_nodes c b e)))"
| "rules_stmt (St_nat_rewrite field) = data_action (nat_rewrite_fn field)"
| "rules_stmt (St_out port mac vlan) = data_action (out_fn port mac vlan)"
| "rules_stmt St_print = plain_action Act_print"
| "rules_stmt St_drop = plain_action Act_drop"
| "opt_else None = done_with Null_node"
| "opt_else (Some body) = rules_content Null_node body"
| "rules_content prev [] = done_with prev"
| "rules_content prev (s # ss) =
    and_then (rules_stmt s) (\<lambda>new. and_then (append_stmt prev new) (\<lambda>node. rules_content node ss))"

section \<open>The meaning of the rules\<close>

datatype verdict = V_stop | V_true | V_false

definition verdict_of :: "int \<Rightarrow> verdict" where
  "verdict_of r = (if r < 0 then V_stop else if r = 0 then V_false else V_true)"

fun cond_sem :: "rule_call \<Rightarrow> cond_expr \<Rightarrow> ptr \<Rightarrow> u8 \<Rightarrow> world \<Rightarrow> (verdict \<times> world) option" where
  "cond_sem call (E_and a b) p port w = do {
     (v, w) \<leftarrow> cond_sem call a p port w;
     if v = V_true then cond_sem call b p port w else Some (v, w) }"
| "cond_sem call (E_or a b) p port w = do {
     (v, w) \<leftarrow> cond_sem call a p port w;
     if v = V_false then cond_sem call b p port w else Some (v, w) }"
| "cond_sem call (E_paren c) p port w = cond_sem call c p port w"
| "cond_sem call (E_in_network field net) p port w = do {
     (r, w) \<leftarrow> call (in_network_fn field net) p port w;
     Some (verdict_of r, w) }"
| "cond_sem call (E_vlan vlan) p port w = do {
     (r, w) \<leftarrow> call (Cond_vlan vlan) p port w;
     Some (verdict_of r, w) }"

text \<open>\<open>True\<close>: a function of the statement was breaking, the rest of the rules is not run.\<close>

definition act_sem :: "rule_call \<Rightarrow> action_fn \<Rightarrow> ptr \<Rightarrow> u8 \<Rightarrow> world \<Rightarrow> (bool \<times> world) option" where
  "act_sem call f p port w = do { (r, w) \<leftarrow> call f p port w; Some (r < 0, w) }"

fun stmt_sem :: "rule_call \<Rightarrow> stmt \<Rightarrow> ptr \<Rightarrow> u8 \<Rightarrow> world \<Rightarrow> (bool \<times> world) option"
  and else_sem :: "rule_call \<Rightarrow> stmt list option \<Rightarrow> ptr \<Rightarrow> u8 \<Rightarrow> world \<Rightarrow> (bool \<times> world) option"
  and stmts_sem :: "rule_call \<Rightarrow> stmt list \<Rightarrow> ptr \<Rightarrow> u8 \<Rightarrow> world \<Rightarrow> (bool \<times> world) option" where
  "stmt_sem call St_empty p port w = Some (False, w)"
| "stmt_sem call (St_if what body els) p port w = do {
     (v, w) \<leftarrow> cond_sem call what p port w;
     case v of V_stop \<Rightarrow> Some (True, w)
       | V_true \<Rightarrow> stmts_sem call body p port w
       | V_false \<Rightarrow> else_sem call els p port w }"
| "stmt_sem call (St_nat_rewrite field) p port w = act_sem call (nat_rewrite_fn field) p port w"
| "stmt_sem call (St_out oport mac vlan) p port w = act_sem call (out_fn oport mac vlan) p port w"
| "stmt_sem call St_print p port w = act_sem call Act_print p port w"
| "stmt_sem call St_drop p port w = act_sem call Act_drop p port w"
| "else_sem call None p port w = Some (False, w)"
| "else_sem call (Some body) p port w = stmts_sem call body p port w"
| "stmts_sem call [] p port w = Some (False, w)"
| "stmts_sem call (s # ss) p port w = do {
     (stop, w) \<leftarrow> stmt_sem call s p port w;
     if stop then Some (True, w) else stmts_sem call ss p port w }"

section \<open>The tree means what the text means\<close>

lemma and_then_Some [build_simps]:
  "and_then m f h = (Some b, h') \<longleftrightarrow> (\<exists>a h1. m h = (Some a, h1) \<and> f a h1 = (Some b, h'))"
  by (auto simp: and_then_def split: prod.splits option.splits)

lemma done_with_Some [build_simps]: "done_with a h = (Some b, h') \<longleftrightarrow> a = b \<and> h = h'"
  by (auto simp: done_with_def)

definition stop_of :: "(int \<times> world) option \<Rightarrow> (bool \<times> world) option" where
  "stop_of = map_option (\<lambda>(r, w). (r < 0, w))"

definition verdict_res :: "(int \<times> world) option \<Rightarrow> (verdict \<times> world) option" where
  "verdict_res = map_option (\<lambda>(r, w). (verdict_of r, w))"

lemma res_bind: "stop_of m = m \<bind> (\<lambda>(r, w). Some (r < 0, w))"
  "verdict_res m = m \<bind> (\<lambda>(r, w). Some (verdict_of r, w))"
  by (cases m; simp add: stop_of_def verdict_res_def case_prod_unfold)+

lemma stop_of_seq:
  "stop_of (process_rules call (Node a N_SEQ l r x d) p port w) = do {
     (stop, w) \<leftarrow> stop_of (process_rules call l p port w);
     if stop then Some (True, w) else stop_of (process_rules call r p port w) }"
  by (auto simp: res_bind intro!: Option.bind_cong)

lemma stop_of_if:
  "stop_of (process_rules call (Node a N_IF (Node b N_COND c t x d) e y f) p port w) = do {
     (v, w) \<leftarrow> verdict_res (process_rules call c p port w);
     case v of V_stop \<Rightarrow> Some (True, w)
       | V_true \<Rightarrow> stop_of (process_rules call t p port w)
       | V_false \<Rightarrow> stop_of (process_rules call e p port w) }"
  by (auto simp: res_bind verdict_of_def intro!: Option.bind_cong)

lemma verdict_res_and:
  "verdict_res (process_rules call (Node a N_AND l r x d) p port w) = do {
     (v, w) \<leftarrow> verdict_res (process_rules call l p port w);
     if v = V_true then verdict_res (process_rules call r p port w) else Some (v, w) }"
  by (auto simp: res_bind verdict_of_def intro!: Option.bind_cong)

lemma verdict_res_or:
  "verdict_res (process_rules call (Node a N_OR l r x d) p port w) = do {
     (v, w) \<leftarrow> verdict_res (process_rules call l p port w);
     if v = V_false then verdict_res (process_rules call r p port w) else Some (v, w) }"
  by (auto simp: res_bind verdict_of_def intro!: Option.bind_cong)

lemma sem_action_nodes:
  "verdict_res (process_rules call (Node a N_ACTION l r (Some f) d) p port w) =
    do { (r, w) \<leftarrow> call f p port w; Some (verdict_of r, w) }"
  "stop_of (process_rules call (Node a N_ACTION l r (Some f) d) p port w) = act_sem call f p port w"
  by (simp_all add: res_bind act_sem_def)

lemmas tree_sem = stop_of_seq stop_of_if verdict_res_and verdict_res_or sem_action_nodes

lemmas node_builders = inner_node_def plain_action_def data_action_def if_nodes_def append_stmt_def

lemma cond_correct:
  "cond c h = (Some t, h') \<Longrightarrow> verdict_res (process_rules call t p port w) = cond_sem call c p port w"
  by (induction c arbitrary: h t h' w)
    (auto simp: build_simps node_builders tree_sem simp del: process_rules.simps intro!: Option.bind_cong)

text \<open>Adding a statement to the tree of the statements before it.\<close>

lemma append_stmt_sem:
  assumes "append_stmt prev new h = (Some t, h')"
  shows "stop_of (process_rules call t p port w) = do {
    (stop, w) \<leftarrow> stop_of (process_rules call prev p port w);
    if stop then Some (True, w) else stop_of (process_rules call new p port w) }"
proof (cases "prev = Null_node")
  case True
  with assms show ?thesis by (simp add: append_stmt_def build_simps stop_of_def)
next
  case prev: False
  show ?thesis
  proof (cases "new = Null_node")
    case True
    with assms prev show ?thesis
      by (auto simp: append_stmt_def build_simps stop_of_def split: Option.bind_split option.splits)
  next
    case False
    with assms prev show ?thesis
      by (auto simp: append_stmt_def inner_node_def build_simps stop_of_seq simp del: process_rules.simps)
  qed
qed

lemma stmts_correct:
  "rules_stmt s h = (Some t, h') \<Longrightarrow>
    stop_of (process_rules call t p port w) = stmt_sem call s p port w"
  "opt_else e h = (Some t, h') \<Longrightarrow>
    stop_of (process_rules call t p port w) = else_sem call e p port w"
  "rules_content prev ss h = (Some t, h') \<Longrightarrow>
    stop_of (process_rules call t p port w) = do {
      (stop, w) \<leftarrow> stop_of (process_rules call prev p port w);
      if stop then Some (True, w) else stmts_sem call ss p port w }"
proof (induction s and e and prev ss arbitrary: h t h' w and h t h' w and h t h' w
    rule: rules_stmt_opt_else_rules_content.induct)
  case (2 what body els)
  then obtain c h1 b h2 e h3 where
    c: "cond what h = (Some c, h1)" and b: "rules_content Null_node body h1 = (Some b, h2)"
    and e: "opt_else els h2 = (Some e, h3)" and t: "if_nodes c b e h3 = (Some t, h')"
    by (auto simp: build_simps)
  have "stop_of (process_rules call b p port w) = stmts_sem call body p port w" for w
    using "2.IH"(1) [OF b] by (simp add: stop_of_def)
  moreover have "stop_of (process_rules call e p port w) = else_sem call els p port w" for w
    by (rule "2.IH"(2) [OF e])
  ultimately show ?case
    using t cond_correct [OF c, of call p port w]
    by (auto simp: if_nodes_def build_simps tree_sem simp del: process_rules.simps
        intro!: Option.bind_cong split: verdict.split)
next
  case (10 prev s ss)
  then obtain new h1 node h2 where
    n: "rules_stmt s h = (Some new, h1)" and a: "append_stmt prev new h1 = (Some node, h2)"
    and r: "rules_content node ss h2 = (Some t, h')"
    by (auto simp: build_simps)
  have new: "stop_of (process_rules call new p port w) = stmt_sem call s p port w" for w
    by (rule "10.IH"(1) [OF n])
  show ?case
    unfolding "10.IH"(2) [OF r] append_stmt_sem [OF a] new
    by (auto intro!: Option.bind_cong split: Option.bind_split)
qed (auto simp: build_simps node_builders tree_sem stop_of_def act_sem_def
    split: Option.bind_split option.splits)

section \<open>The blocks of a tree\<close>

text \<open>In the order in which \<open>reset_rules\<close> frees them.\<close>

fun tree_blocks :: "app_config_node \<Rightarrow> nat list" where
  "tree_blocks Null_node = []"
| "tree_blocks (Node node type left right action data) =
    tree_blocks left @ tree_blocks right @ (case data of None \<Rightarrow> [] | Some d \<Rightarrow> [d]) @ [node]"

text \<open>Between \<open>h\<close> and \<open>h'\<close> exactly the blocks \<open>bs\<close> were allocated.\<close>

definition built :: "heap \<Rightarrow> nat list \<Rightarrow> heap \<Rightarrow> bool" where
  "built h bs h' \<longleftrightarrow> distinct bs \<and> set bs \<subseteq> {next_addr h..<next_addr h'} \<and>
     live h' = live h \<union> set bs \<and> next_addr h \<le> next_addr h' \<and> alloc_ok h' = alloc_ok h"

lemma built_refl [simp]: "built h [] h"
  by (simp add: built_def)

lemma built_trans: "built h bs h1 \<Longrightarrow> built h1 cs h2 \<Longrightarrow> built h (bs @ cs) h2"
  by (fastforce simp: built_def)

lemma built_perm: "built h bs h' \<Longrightarrow> mset bs = mset cs \<Longrightarrow> built h cs h'"
  using mset_eq_imp_distinct_iff [of bs cs] mset_eq_setD [of bs cs] by (simp add: built_def)

lemma built_zmalloc: "rte_zmalloc h = (Some a, h') \<Longrightarrow> built h [a] h'"
  by (auto simp: rte_zmalloc_def Let_def built_def split: if_splits)

lemma built_heap_ok: "built h bs h' \<Longrightarrow> heap_ok h \<Longrightarrow> heap_ok h'"
  by (fastforce simp: built_def heap_ok_def)

lemma built_fresh: "built h bs h' \<Longrightarrow> heap_ok h \<Longrightarrow> set bs \<inter> live h = {}"
  by (fastforce simp: built_def heap_ok_def)

text \<open>\<open>step bs\<close> then one more block, in any order.\<close>

lemma built_snoc:
  "built h bs h1 \<Longrightarrow> rte_zmalloc h1 = (Some a, h2) \<Longrightarrow> mset cs = add_mset a (mset bs) \<Longrightarrow> built h cs h2"
  by (drule built_zmalloc) (auto intro: built_perm dest: built_trans)

lemma data_action_built: "data_action f h = (Some t, h') \<Longrightarrow> built h (tree_blocks t) h'"
  by (auto simp: data_action_def build_simps intro: built_snoc [OF built_zmalloc])

lemma plain_action_built: "plain_action f h = (Some t, h') \<Longrightarrow> built h (tree_blocks t) h'"
  by (auto simp: plain_action_def build_simps dest!: built_zmalloc)

lemma cond_built: "cond c h = (Some t, h') \<Longrightarrow> built h (tree_blocks t) h'"
proof (induction c arbitrary: h t h')
  case (E_and a b)
  then show ?case
    by (fastforce simp: build_simps inner_node_def intro: built_snoc [OF built_trans])
next
  case (E_or a b)
  then show ?case
    by (fastforce simp: build_simps inner_node_def intro: built_snoc [OF built_trans])
qed (auto intro: data_action_built)

lemma append_stmt_built:
  assumes "append_stmt prev new h1 = (Some t, h')" "built h (tree_blocks new) h1"
  shows "\<exists>bs. built h bs h' \<and> mset (tree_blocks t) = mset (tree_blocks prev) + mset bs"
proof (cases "prev = Null_node \<or> new = Null_node")
  case True
  with assms show ?thesis by (auto simp: append_stmt_def build_simps split: if_splits)
next
  case False
  with assms obtain a where a: "rte_zmalloc h1 = (Some a, h')"
    and t: "t = Node a N_SEQ prev new None None"
    by (auto simp: append_stmt_def inner_node_def build_simps)
  from built_snoc [OF assms(2) a, of "tree_blocks new @ [a]"] show ?thesis
    unfolding t by (intro exI [of _ "tree_blocks new @ [a]"]) simp
qed

lemma stmts_built:
  "rules_stmt s h = (Some t, h') \<Longrightarrow> built h (tree_blocks t) h'"
  "opt_else e h = (Some t, h') \<Longrightarrow> built h (tree_blocks t) h'"
  "rules_content prev ss h = (Some t, h') \<Longrightarrow>
    \<exists>bs. built h bs h' \<and> mset (tree_blocks t) = mset (tree_blocks prev) + mset bs"
proof (induction s and e and prev ss arbitrary: h t h' and h t h' and h t h'
    rule: rules_stmt_opt_else_rules_content.induct)
  case (2 what body els)
  then obtain c h1 b h2 e h3 i h4 j where
    c: "cond what h = (Some c, h1)" and b: "rules_content Null_node body h1 = (Some b, h2)"
    and e: "opt_else els h2 = (Some e, h3)" and i: "rte_zmalloc h3 = (Some i, h4)"
    and j: "rte_zmalloc h4 = (Some j, h')"
    and t: "t = Node i N_IF (Node j N_COND c b None None) e None None"
    by (auto simp: build_simps if_nodes_def)
  from "2.IH"(1) [OF b] have "built h1 (tree_blocks b) h2" by (auto intro: built_perm)
  from built_trans [OF built_trans [OF cond_built [OF c] this] "2.IH"(2) [OF e]]
  have "built h ((tree_blocks c @ tree_blocks b) @ tree_blocks e) h3" .
  then have "built h (i # (tree_blocks c @ tree_blocks b) @ tree_blocks e) h4"
    by (rule built_snoc [OF _ i]) simp
  then show ?case by (rule built_snoc [OF _ j]) (simp add: t)
next
  case (8 body)
  from "8.IH" [of h t h'] "8.prems" show ?case by (auto intro: built_perm [OF _ sym])
next
  case (10 prev s ss)
  then obtain new h1 node h2 where
    n: "rules_stmt s h = (Some new, h1)" and a: "append_stmt prev new h1 = (Some node, h2)"
    and r: "rules_content node ss h2 = (Some t, h')"
    by (auto simp: build_simps)
  obtain bs where "built h bs h2" "mset (tree_blocks node) = mset (tree_blocks prev) + mset bs"
    using append_stmt_built [OF a "10.IH"(1) [OF n]] by blast
  moreover obtain cs where "built h2 cs h'" "mset (tree_blocks t) = mset (tree_blocks node) + mset cs"
    using "10.IH"(2) [OF r] by blast
  ultimately show ?case by (intro exI [of _ "bs @ cs"]) (simp add: built_trans)
qed (auto simp: build_simps data_action_built plain_action_built intro: exI [of _ "[]"])

lemma rules_built: "rules_content Null_node ss h = (Some t, h') \<Longrightarrow> built h (tree_blocks t) h'"
  using stmts_built(3) [of Null_node ss h t h'] by (auto intro: built_perm)

text \<open>With memory available, every action of the grammar succeeds.\<close>

definition total :: "heap \<Rightarrow> 'a option \<times> heap \<Rightarrow> bool" where
  "total h r \<longleftrightarrow> (\<exists>a h'. r = (Some a, h') \<and> (\<forall>n. alloc_ok h' n))"

lemma total_simps [simp]:
  "(\<forall>n. alloc_ok h n) \<Longrightarrow> total h (rte_zmalloc h)"
  "(\<forall>n. alloc_ok h n) \<Longrightarrow> total h (done_with a h)"
  by (simp_all add: total_def rte_zmalloc_def done_with_def Let_def)

lemma total_and_then:
  "total h (m h) \<Longrightarrow> (\<And>a h. (\<forall>n. alloc_ok h n) \<Longrightarrow> total h (f a h)) \<Longrightarrow> total h (and_then m f h)"
  by (fastforce simp: total_def and_then_def)

lemma total_nodes:
  assumes "\<forall>n. alloc_ok h n"
  shows "total h (inner_node ty l r h)" "total h (plain_action f h)" "total h (data_action f h)"
    "total h (if_nodes c b e h)" "total h (append_stmt l r h)"
  using assms by (auto simp: node_builders intro!: total_and_then)

lemma cond_total: "\<forall>n. alloc_ok h n \<Longrightarrow> total h (cond c h)"
  by (induction c arbitrary: h) (auto intro!: total_and_then total_nodes)

lemma stmts_total:
  "\<forall>n. alloc_ok h n \<Longrightarrow> total h (rules_stmt s h)"
  "\<forall>n. alloc_ok h n \<Longrightarrow> total h (opt_else e h)"
  "\<forall>n. alloc_ok h n \<Longrightarrow> total h (rules_content prev ss h)"
  by (induction s and e and prev ss arbitrary: h and h and h
    rule: rules_stmt_opt_else_rules_content.induct)
    (auto intro!: total_and_then total_nodes cond_total)

section \<open>The types of the nodes\<close>

text \<open>
  What the interpreter relies on and the C types do not say: conditions are built from
  \<open>AND\<close>, \<open>OR\<close> and condition functions only, the left part of an \<open>IF\<close> is a \<open>COND\<close>,
  no part of a sequence is null, and a function has a data block exactly if it reads one.
\<close>

fun is_condition :: "action_fn \<Rightarrow> bool" where
  "is_condition (Cond_ipv4_src_in_network net) = True"
| "is_condition (Cond_ipv4_dst_in_network net) = True"
| "is_condition (Cond_vlan vlan) = True"
| "is_condition _ = False"

fun reads_data :: "action_fn \<Rightarrow> bool" where
  "reads_data Act_print = False"
| "reads_data Act_drop = False"
| "reads_data _ = True"

definition wt_action :: "app_config_node \<Rightarrow> app_config_node \<Rightarrow> action_fn option \<Rightarrow> nat option \<Rightarrow> bool \<Rightarrow> bool" where
  "wt_action left right action data c \<longleftrightarrow> left = Null_node \<and> right = Null_node \<and>
    (case action of None \<Rightarrow> False | Some f \<Rightarrow> is_condition f = c \<and> reads_data f = (data \<noteq> None))"

fun wt_cond :: "app_config_node \<Rightarrow> bool" where
  "wt_cond Null_node = False"
| "wt_cond (Node _ type left right action data) =
    (case type of
       N_AND \<Rightarrow> wt_cond left \<and> wt_cond right \<and> action = None \<and> data = None
     | N_OR \<Rightarrow> wt_cond left \<and> wt_cond right \<and> action = None \<and> data = None
     | N_ACTION \<Rightarrow> wt_action left right action data True
     | _ \<Rightarrow> False)"

fun wt_rules :: "app_config_node \<Rightarrow> bool" where
  "wt_rules Null_node = True"
| "wt_rules (Node _ type left right action data) =
    (case type of
       N_SEQ \<Rightarrow> left \<noteq> Null_node \<and> right \<noteq> Null_node \<and> wt_rules left \<and> wt_rules right \<and>
         action = None \<and> data = None
     | N_IF \<Rightarrow> (case left of
           Node _ N_COND what body None None \<Rightarrow> wt_cond what \<and> wt_rules body
         | _ \<Rightarrow> False) \<and> wt_rules right \<and> action = None \<and> data = None
     | N_ACTION \<Rightarrow> wt_action left right action data False
     | _ \<Rightarrow> False)"

lemma action_node_wt:
  "data_action f h = (Some t, h') \<Longrightarrow> reads_data f \<Longrightarrow> is_condition f \<Longrightarrow> wt_cond t"
  "data_action f h = (Some t, h') \<Longrightarrow> reads_data f \<Longrightarrow> \<not> is_condition f \<Longrightarrow> wt_rules t \<and> t \<noteq> Null_node"
  "plain_action f h = (Some t, h') \<Longrightarrow> \<not> reads_data f \<Longrightarrow> \<not> is_condition f \<Longrightarrow> wt_rules t \<and> t \<noteq> Null_node"
  by (auto simp: data_action_def plain_action_def build_simps wt_action_def)

lemma fn_kinds [simp]:
  "is_condition (in_network_fn field net)" "reads_data (in_network_fn field net)"
  "\<not> is_condition (nat_rewrite_fn field)" "reads_data (nat_rewrite_fn field)"
  "\<not> is_condition (out_fn oport mac vlan)" "reads_data (out_fn oport mac vlan)"
  by (simp_all add: in_network_fn_def nat_rewrite_fn_def out_fn_def)

lemma cond_wt: "cond c h = (Some t, h') \<Longrightarrow> wt_cond t"
  by (induction c arbitrary: h t h') (auto simp: build_simps inner_node_def intro: action_node_wt)

lemma append_stmt_wt: "append_stmt prev new h = (Some t, h') \<Longrightarrow> wt_rules prev \<Longrightarrow> wt_rules new \<Longrightarrow> wt_rules t"
  by (auto simp: append_stmt_def inner_node_def build_simps split: if_splits)

lemma stmts_wt:
  "rules_stmt s h = (Some t, h') \<Longrightarrow> wt_rules t"
  "opt_else e h = (Some t, h') \<Longrightarrow> wt_rules t"
  "rules_content prev ss h = (Some t, h') \<Longrightarrow> wt_rules prev \<Longrightarrow> wt_rules t"
proof (induction s and e and prev ss arbitrary: h t h' and h t h' and h t h'
    rule: rules_stmt_opt_else_rules_content.induct)
  case (2 what body els)
  then show ?case by (fastforce simp: build_simps if_nodes_def dest: cond_wt)
next
  case (10 prev s ss)
  then show ?case by (fastforce simp: build_simps dest: append_stmt_wt)
qed (auto simp: build_simps dest: action_node_wt)

text \<open>A configuration whose numbers fit a worker with \<open>n\<close> ports.\<close>

fun cond_fits :: "nat \<Rightarrow> cond_expr \<Rightarrow> bool" where
  "cond_fits n (E_and a b) \<longleftrightarrow> cond_fits n a \<and> cond_fits n b"
| "cond_fits n (E_or a b) \<longleftrightarrow> cond_fits n a \<and> cond_fits n b"
| "cond_fits n (E_paren c) \<longleftrightarrow> cond_fits n c"
| "cond_fits n (E_in_network field net) \<longleftrightarrow> 1 \<le> unat (net_mask net) \<and> unat (net_mask net) \<le> 32"
| "cond_fits n (E_vlan vlan) \<longleftrightarrow> True"

fun stmt_fits :: "nat \<Rightarrow> stmt \<Rightarrow> bool"
  and else_fits :: "nat \<Rightarrow> stmt list option \<Rightarrow> bool"
  and stmts_fit :: "nat \<Rightarrow> stmt list \<Rightarrow> bool" where
  "stmt_fits n (St_if what body els) \<longleftrightarrow> cond_fits n what \<and> stmts_fit n body \<and> else_fits n els"
| "stmt_fits n (St_out oport mac vlan) \<longleftrightarrow> unat (of_int oport :: u8) < n \<and> length mac = 6"
| "stmt_fits n _ \<longleftrightarrow> True"
| "else_fits n None \<longleftrightarrow> True"
| "else_fits n (Some body) \<longleftrightarrow> stmts_fit n body"
| "stmts_fit n [] \<longleftrightarrow> True"
| "stmts_fit n (s # ss) \<longleftrightarrow> stmt_fits n s \<and> stmts_fit n ss"

lemma action_node_valid:
  "data_action f h = (Some t, h') \<Longrightarrow> valid_action n f \<Longrightarrow> valid_node valid_action n t"
  "plain_action f h = (Some t, h') \<Longrightarrow> valid_action n f \<Longrightarrow> valid_node valid_action n t"
  by (auto simp: data_action_def plain_action_def build_simps)

lemma cond_valid: "cond c h = (Some t, h') \<Longrightarrow> cond_fits n c \<Longrightarrow> valid_node valid_action n t"
  by (induction c arbitrary: h t h')
    (auto simp: build_simps inner_node_def in_network_fn_def intro: action_node_valid)

lemma append_stmt_valid:
  "append_stmt prev new h = (Some t, h') \<Longrightarrow> valid_node v n prev \<Longrightarrow> valid_node v n new \<Longrightarrow> valid_node v n t"
  by (auto simp: append_stmt_def inner_node_def build_simps split: if_splits)

lemma stmts_valid:
  "rules_stmt s h = (Some t, h') \<Longrightarrow> stmt_fits n s \<Longrightarrow> valid_node valid_action n t"
  "opt_else e h = (Some t, h') \<Longrightarrow> else_fits n e \<Longrightarrow> valid_node valid_action n t"
  "rules_content prev ss h = (Some t, h') \<Longrightarrow> stmts_fit n ss \<Longrightarrow> valid_node valid_action n prev \<Longrightarrow>
    valid_node valid_action n t"
proof (induction s and e and prev ss arbitrary: h t h' and h t h' and h t h'
    rule: rules_stmt_opt_else_rules_content.induct)
  case (2 what body els)
  then show ?case by (fastforce simp: build_simps if_nodes_def dest: cond_valid)
next
  case (10 prev s ss)
  then show ?case by (fastforce simp: build_simps dest: append_stmt_valid)
qed (auto simp: build_simps nat_rewrite_fn_def out_fn_def dest: action_node_valid)

text \<open>Statements that end in \<open>out\<close> or \<open>drop\<close> whatever the conditions say.\<close>

fun stmt_ends :: "stmt \<Rightarrow> bool"
  and else_ends :: "stmt list option \<Rightarrow> bool"
  and stmts_end :: "stmt list \<Rightarrow> bool" where
  "stmt_ends (St_if what body els) \<longleftrightarrow> stmts_end body \<and> else_ends els"
| "stmt_ends (St_out oport mac vlan) \<longleftrightarrow> True"
| "stmt_ends St_drop \<longleftrightarrow> True"
| "stmt_ends _ \<longleftrightarrow> False"
| "else_ends None \<longleftrightarrow> False"
| "else_ends (Some body) \<longleftrightarrow> stmts_end body"
| "stmts_end [] \<longleftrightarrow> False"
| "stmts_end (s # ss) \<longleftrightarrow> stmt_ends s \<or> stmts_end ss"

lemma append_stmt_breaking:
  "append_stmt prev new h = (Some t, h') \<Longrightarrow> breaking stops t \<longleftrightarrow> breaking stops prev \<or> breaking stops new"
  by (auto simp: append_stmt_def inner_node_def build_simps split: if_splits)

lemma stmts_breaking:
  "rules_stmt s h = (Some t, h') \<Longrightarrow> breaking stops_action t \<longleftrightarrow> stmt_ends s"
  "opt_else e h = (Some t, h') \<Longrightarrow> breaking stops_action t \<longleftrightarrow> else_ends e"
  "rules_content prev ss h = (Some t, h') \<Longrightarrow>
    breaking stops_action t \<longleftrightarrow> breaking stops_action prev \<or> stmts_end ss"
proof (induction s and e and prev ss arbitrary: h t h' and h t h' and h t h'
    rule: rules_stmt_opt_else_rules_content.induct)
  case (2 what body els)
  then show ?case by (fastforce simp: build_simps if_nodes_def)
next
  case (10 prev s ss)
  then show ?case by (fastforce simp: build_simps dest: append_stmt_breaking)
qed (auto simp: build_simps nat_rewrite_fn_def out_fn_def data_action_def plain_action_def)

section \<open>The \<open>config\<close> section\<close>

definition RTE_MAX_ETHPORTS :: int where "RTE_MAX_ETHPORTS = 32"

definition opt_mtu :: "int option \<Rightarrow> int" where
  "opt_mtu m = (case m of None \<Rightarrow> 1500 | Some n \<Rightarrow> n)"

definition new_port_ip :: "int option \<Rightarrow> u32 \<Rightarrow> port_ip_addr build" where
  "new_port_ip vlan ip = and_then rte_zmalloc (\<lambda>a.
     done_with \<lparr>pia_block = a, pia_ip = ip, pia_vlan = of_int (opt_vlan vlan)\<rparr>)"

text \<open>The production is right recursive: the last address of the line is reduced first.\<close>

fun config_port_extra_ips :: "(int option \<times> u32) list \<Rightarrow> port_ip_addr list build" where
  "config_port_extra_ips [] = done_with []"
| "config_port_extra_ips ((vlan, ip) # rest) =
    and_then (config_port_extra_ips rest) (\<lambda>next.
      and_then (new_port_ip vlan ip) (\<lambda>port_ip. done_with (port_ip # next)))"

text \<open>
  The results are those of \<open>yyparse\<close>: 0, or 1 after \<open>YYERROR\<close>.  The port number is checked
  against the number of ports DPDK can have, and indexes an array of two entries: a number
  between the two bounds is undefined.
\<close>

definition config_port ::
  "int \<Rightarrow> int option \<Rightarrow> int option \<Rightarrow> u32 \<Rightarrow> (int option \<times> u32) list \<Rightarrow> app_config \<Rightarrow> heap \<Rightarrow>
    (int \<times> app_config \<times> heap) option" where
  "config_port port m vlan ip extra config h =
    (case config_port_extra_ips extra h of (None, h) \<Rightarrow> Some (1, config, h)
     | (Some next_ips, h) \<Rightarrow>
         if port \<ge> RTE_MAX_ETHPORTS then Some (1, config, h)
         else (case new_port_ip vlan ip h of (None, h) \<Rightarrow> Some (1, config, h)
           | (Some port_ip, h) \<Rightarrow> do {
               guard (0 \<le> port \<and> nat port < length (ports config));
               Some (0, config\<lparr>ports := (ports config)[nat port :=
                 \<lparr>ip_addresses = port_ip # next_ips, mtu = opt_mtu m\<rparr>]\<rparr>, h) }))"

text \<open>
  \<open>cfg\<close> is the address of the configuration; the field \<open>nat_lookup\<close> is not its first field, so the
  address of the field is not null.
\<close>

definition config_nat_rule ::
  "nat \<Rightarrow> u32 \<Rightarrow> u32 \<Rightarrow> app_config \<Rightarrow> heap \<Rightarrow> (int \<times> app_config \<times> heap) option" where
  "config_nat_rule cfg frm to config h = do {
     (r, t, h) \<leftarrow> add_rules_to_table (Suc cfg) (nat_lookup config) frm to h;
     let config = config\<lparr>nat_lookup := t\<rparr>;
     if r < 0 then Some (1, config, h) else Some (0, config, h) }"

fun config_line_action ::
  "nat \<Rightarrow> config_line \<Rightarrow> app_config \<Rightarrow> heap \<Rightarrow> (int \<times> app_config \<times> heap) option" where
  "config_line_action cfg L_empty config h = Some (0, config, h)"
| "config_line_action cfg (L_port port m vlan ip extra) config h = config_port port m vlan ip extra config h"
| "config_line_action cfg (L_nat_rule frm to) config h = config_nat_rule cfg frm to config h"

fun config_lines ::
  "nat \<Rightarrow> config_line list \<Rightarrow> app_config \<Rightarrow> heap \<Rightarrow> (int \<times> app_config \<times> heap) option" where
  "config_lines cfg [] config h = Some (0, config, h)"
| "config_lines cfg (l # ls) config h = do {
     (r, config, h) \<leftarrow> config_line_action cfg l config h;
     if r \<noteq> 0 then Some (r, config, h) else config_lines cfg ls config h }"

definition rules_section :: "stmt list \<Rightarrow> app_config \<Rightarrow> heap \<Rightarrow> (int \<times> app_config \<times> heap) option" where
  "rules_section content config h =
    (case rules_content Null_node content h of (None, h) \<Rightarrow> Some (1, config, h)
     | (Some root, h) \<Rightarrow> Some (0, config\<lparr>rules := root\<rparr>, h))"

fun config_file ::
  "nat \<Rightarrow> config_item list \<Rightarrow> app_config \<Rightarrow> heap \<Rightarrow> (int \<times> app_config \<times> heap) option" where
  "config_file cfg [] config h = Some (0, config, h)"
| "config_file cfg (Config_section ls # rest) config h = do {
     (r, config, h) \<leftarrow> config_lines cfg ls config h;
     if r \<noteq> 0 then Some (r, config, h) else config_file cfg rest config h }"
| "config_file cfg (Rules_section content # rest) config h = do {
     (r, config, h) \<leftarrow> rules_section content config h;
     if r \<noteq> 0 then Some (r, config, h) else config_file cfg rest config h }"

text \<open>
  A file that is not in the language: the automaton stops at the first token that cannot
  continue.  Whole sections before it have been reduced, and so have the parts of the
  section it is in; the semantic values of the latter are on the parser stack and are dropped.
  (The lines of an unfinished \<open>config\<close> section have taken effect and count as a section.)
\<close>

datatype pending =
    P_cond cond_expr
  | P_content "stmt list"
  | P_extra_ips "(int option \<times> u32) list"

datatype parse_outcome =
    Accepted "config_item list"
  | Rejected "config_item list" "pending list"

fun reduce_pending :: "pending list \<Rightarrow> heap \<Rightarrow> heap" where
  "reduce_pending [] h = h"
| "reduce_pending (P_cond c # ps) h =
    (case cond c h of (None, h) \<Rightarrow> h | (Some _, h) \<Rightarrow> reduce_pending ps h)"
| "reduce_pending (P_content ss # ps) h =
    (case rules_content Null_node ss h of (None, h) \<Rightarrow> h | (Some _, h) \<Rightarrow> reduce_pending ps h)"
| "reduce_pending (P_extra_ips xs # ps) h =
    (case config_port_extra_ips xs h of (None, h) \<Rightarrow> h | (Some _, h) \<Rightarrow> reduce_pending ps h)"

fun yyparse :: "nat \<Rightarrow> parse_outcome \<Rightarrow> app_config \<Rightarrow> heap \<Rightarrow> (int \<times> app_config \<times> heap) option" where
  "yyparse cfg (Accepted items) config h = config_file cfg items config h"
| "yyparse cfg (Rejected items ps) config h = do {
     (r, config, h) \<leftarrow> config_file cfg items config h;
     if r \<noteq> 0 then Some (r, config, h) else Some (1, config, reduce_pending ps h) }"

section \<open>Properties of the parsed rules\<close>

text \<open>
  The example of \<open>docs/CONFIGURATION.md\<close>, and the tree the document draws for it.
\<close>

definition doc_mac :: bytes where "doc_mac = [0x7c, 0x0e, 0xce, 0x25, 0xf3, 0x97]"

definition net_10 :: ipv4_network where "net_10 = \<lparr>net_ip = 0x0A000000, net_mask = 8\<rparr>"
definition net_212 :: ipv4_network where "net_212 = \<lparr>net_ip = 0xD42F0000, net_mask = 16\<rparr>"

definition doc_rules :: "stmt list" where
  "doc_rules =
    [St_if (E_and (E_in_network IPV4_SRC_ADDR net_10) (E_in_network IPV4_DST_ADDR net_212))
       [St_nat_rewrite IPV4_SRC_ADDR, St_out 0 doc_mac None]
       (Some [St_out 1 doc_mac None]),
     St_print, St_empty]"

text \<open>
  C8. The rule compiler is correct: running the tree that the parser builds for a \<open>rules\<close> section is
  running the section as the documentation explains it.  Statements run in order until a function
  is breaking, \<open>and\<close> and \<open>or\<close> evaluate their right side only if the left side does not decide, a breaking
  condition stops the rules, and an \<open>if\<close> runs its body or its else part.  This holds for any rule
  functions and any packet.
\<close>

theorem rules_compile_correct:
  assumes "rules_content Null_node ss h = (Some t, h')"
  shows "stop_of (process_rules call t p port w) = stmts_sem call ss p port w"
  using stmts_correct(3) [OF assms] by (simp add: stop_of_def)

lemma doc_tree:
  "\<exists>h'. rules_content Null_node doc_rules heap0 = (Some
    (Node 16 N_SEQ
      (Node 13 N_IF
        (Node 14 N_COND
          (Node 5 N_AND
            (Node 1 N_ACTION Null_node Null_node (Some (Cond_ipv4_src_in_network net_10)) (Some 2))
            (Node 3 N_ACTION Null_node Null_node (Some (Cond_ipv4_dst_in_network net_212)) (Some 4)) None None)
          (Node 10 N_SEQ
            (Node 6 N_ACTION Null_node Null_node (Some (Act_nat_rewrite IPV4_SRC_ADDR)) (Some 7))
            (Node 8 N_ACTION Null_node Null_node
              (Some (Act_out \<lparr>out_port = 0, out_vlan = 0, next_hop = doc_mac\<rparr>)) (Some 9)) None None)
          None None)
        (Node 11 N_ACTION Null_node Null_node
          (Some (Act_out \<lparr>out_port = 1, out_vlan = 0, next_hop = doc_mac\<rparr>)) (Some 12)) None None)
      (Node 15 N_ACTION Null_node Null_node (Some Act_print) None) None None), h')"
  by (simp add: doc_rules_def heap0_def and_then_def done_with_def node_builders rte_zmalloc_def Let_def
      in_network_fn_def nat_rewrite_fn_def out_fn_def opt_vlan_def IPV4_SRC_ADDR_def IPV4_DST_ADDR_def)

theorem rules_compile_correct_witness:
  "\<exists>t h'. rules_content Null_node doc_rules heap0 = (Some t, h') \<and>
    stop_of (process_rules (run_action dpdk0) t 0 0 (sample_world tcp_pkt)) =
      stmts_sem (run_action dpdk0) doc_rules 0 0 (sample_world tcp_pkt)"
proof -
  obtain t h' where t: "rules_content Null_node doc_rules heap0 = (Some t, h')"
    using doc_tree by blast
  with rules_compile_correct [OF t] show ?thesis by blast
qed

text \<open>
  C17. Typing of the rule trees: what the parser builds for a \<open>rules\<close> section is a well-typed tree (only
  condition functions below \<open>AND\<close>, \<open>OR\<close> and \<open>COND\<close>, no null part in a sequence, a data block for exactly the
  functions that read one); if the numbers in the text fit a worker with \<open>n\<close> ports, every node has valid
  data; and the tree ends in \<open>out\<close> or \<open>drop\<close> on every path exactly if the text does.
\<close>

theorem parsed_rules_typed:
  assumes "rules_content Null_node ss h = (Some t, h')" and "stmts_fit n ss"
  shows "wt_rules t \<and> valid_node valid_action n t \<and> (breaking stops_action t \<longleftrightarrow> stmts_end ss)"
  using stmts_wt(3) [OF assms(1)] stmts_valid(3) [OF assms] stmts_breaking(3) [OF assms(1)] by simp

theorem parsed_rules_typed_witness:
  "stmts_fit 2 doc_rules \<and> (\<exists>t h'. rules_content Null_node doc_rules heap0 = (Some t, h') \<and> wt_rules t \<and>
    valid_node valid_action 2 t \<and> breaking stops_action t)"
proof -
  have fits: "stmts_fit 2 doc_rules" "stmts_end doc_rules"
    by (simp_all add: doc_rules_def doc_mac_def net_10_def net_212_def)
  obtain t h' where t: "rules_content Null_node doc_rules heap0 = (Some t, h')"
    using doc_tree by blast
  with parsed_rules_typed [OF t fits(1)] fits show ?thesis by blast
qed

end
