(* ===== verification/Arp.thy ===== *)
theory Arp
  imports Ipv4
begin

text \<open>
  ARP, \<open>src/src/arp.c\<close>: a request for one of the addresses of the port it came
  from, on the VLAN it came from, is answered in place.  The log lines are not modelled.
\<close>

section \<open>Operations\<close>

definition ARP_OP_REQUEST :: u16 where "ARP_OP_REQUEST = 1"
definition ARP_OP_REPLY :: u16 where "ARP_OP_REPLY = 2"

definition arp_request :: "dpdk \<Rightarrow> ptr \<Rightarrow> u8 \<Rightarrow> world \<Rightarrow> (int \<times> world) option" where
  "arp_request D p port w = do {
     arp_sip \<leftarrow> pkt_ld32 p (arp_header + arp_arp_sip) w;
     arp_tip \<leftarrow> pkt_ld32 p (arp_header + arp_arp_tip) w;
     let source_ip = bswap32 arp_sip;
     let target_ip = bswap32 arp_tip;
     m \<leftarrow> mbufs w p;
     ours \<leftarrow> is_natasha_port_ip (config_of w) target_ip (VLAN_ID m) port;
     if \<not> ours then Some (- 1, w)
     else do {
       let my_eth_addr = rte_eth_macaddr_get D port;
       w \<leftarrow> pkt_st16 p (arp_header + arp_arp_op) (bswap16 ARP_OP_REPLY) w;
       s_addr \<leftarrow> pkt_ldn p (eth_header + eth_s_addr) 6 w;
       w \<leftarrow> pkt_stn p (eth_header + eth_d_addr) s_addr w;
       w \<leftarrow> pkt_stn p (eth_header + eth_s_addr) my_eth_addr w;
       arp_sha \<leftarrow> pkt_ldn p (arp_header + arp_arp_sha) 6 w;
       w \<leftarrow> pkt_stn p (arp_header + arp_arp_tha) arp_sha w;
       w \<leftarrow> pkt_stn p (arp_header + arp_arp_sha) my_eth_addr w;
       w \<leftarrow> pkt_st32 p (arp_header + arp_arp_tip) (bswap32 source_ip) w;
       w \<leftarrow> pkt_st32 p (arp_header + arp_arp_sip) (bswap32 target_ip) w;
       (n, w) \<leftarrow> tx_send D p port (unat port) w;
       Some (uint n, w) } }"

definition arp_handle :: "dpdk \<Rightarrow> ptr \<Rightarrow> u8 \<Rightarrow> world \<Rightarrow> (int \<times> world) option" where
  "arp_handle D p port w = do {
     arp_op \<leftarrow> pkt_ld16 p (arp_header + arp_arp_op) w;
     if bswap16 arp_op = ARP_OP_REQUEST then arp_request D p port w else Some (- 1, w) }"

section \<open>The reply\<close>

definition arp_reply_buf :: "bytes \<Rightarrow> bytes \<Rightarrow> bytes" where
  "arp_reply_buf mac b =
    (let b = wr16 b 20 (bswap16 ARP_OP_REPLY);
         b = wrn (wrn b 0 (rdn b 6 6)) 6 mac;
         b' = wrn (wrn b 32 (rdn b 22 6)) 22 mac
     in wr32 (wr32 b' 38 (rd32 b 28)) 28 (rd32 b 38))"

lemma arp_request_eq:
  assumes m: "mbufs w p = Some m" and len: "42 \<le> length (buf m)"
    and mac: "length (rte_eth_macaddr_get D port) = 6" and port: "unat port < length (ports (config_of w))"
  shows "arp_request D p port w =
    (if port_ip_match (ip_addresses (ports (config_of w) ! unat port)) (bswap32 (rd32 (buf m) 38)) (VLAN_ID m)
     then do {
       (n, w) \<leftarrow> tx_send D p port (unat port)
         (set_pkt p (m\<lparr>buf := arp_reply_buf (rte_eth_macaddr_get D port) (buf m)\<rparr>) w);
       Some (uint n, w) }
     else Some (- 1, w))"
  using assms
  by (simp add: arp_request_def pkt_simps buf_simps is_natasha_port_ip_def arp_reply_buf_def Let_def)

text \<open>
  C25. The answer to an ARP request for an address of the receiving port on the receiving VLAN:
  it goes to the sender's hardware address and says, in the Ethernet and in the ARP part, that
  the port's hardware address has the address asked for; the sender's addresses become the
  target.  The packet is handed to the queue of the same port.
\<close>

theorem arp_reply_correct:
  assumes m: "mbufs w p = Some m" and len: "42 \<le> length (buf m)" and D: "dpdk_ok D"
    and port: "unat port < length (ports (config_of w))"
    and req: "rd16 (buf m) 20 = bswap16 ARP_OP_REQUEST"
    and ours: "port_ip_match (ip_addresses (ports (config_of w) ! unat port))
      (bswap32 (rd32 (buf m) 38)) (VLAN_ID m)"
    and mac: "mac = rte_eth_macaddr_get D port"
  shows "\<exists>m'. arp_handle D p port w = do {
      (n, w) \<leftarrow> tx_send D p port (unat port) (set_pkt p m' w); Some (uint n, w) } \<and>
    rd16 (buf m') 20 = bswap16 ARP_OP_REPLY \<and>
    rdn (buf m') 0 6 = rdn (buf m) 6 6 \<and> rdn (buf m') 6 6 = mac \<and>
    rdn (buf m') 22 6 = mac \<and> rd32 (buf m') 28 = rd32 (buf m) 38 \<and>
    rdn (buf m') 32 6 = rdn (buf m) 22 6 \<and> rd32 (buf m') 38 = rd32 (buf m) 28 \<and>
    vlan_tci m' = vlan_tci m"
proof -
  let ?b = "arp_reply_buf mac (buf m)"
  have l: "length mac = 6" using D mac by (simp add: dpdk_ok_def)
  have "arp_handle D p port w = arp_request D p port w"
    using m len req by (simp add: arp_handle_def pkt_simps buf_simps)
  then have "arp_handle D p port w = do {
      (n, w) \<leftarrow> tx_send D p port (unat port) (set_pkt p (m\<lparr>buf := ?b\<rparr>) w); Some (uint n, w) }"
    using arp_request_eq [OF m len _ port, of D] l mac ours by simp
  moreover have "rd16 ?b 20 = bswap16 ARP_OP_REPLY" "rdn ?b 0 6 = rdn (buf m) 6 6" "rdn ?b 6 6 = mac"
      "rdn ?b 22 6 = mac" "rd32 ?b 28 = rd32 (buf m) 38" "rdn ?b 32 6 = rdn (buf m) 22 6"
      "rd32 ?b 38 = rd32 (buf m) 28"
    using len l by (simp_all add: arp_reply_buf_def Let_def buf_simps)
  ultimately show ?thesis by (intro exI [of _ "m\<lparr>buf := ?b\<rparr>"]) simp
qed

text \<open>
  Everything else is left alone: an ARP packet that is not a request, or asks for an address
  that the port does not have on that VLAN, is handed back unchanged with -1.
\<close>

theorem arp_not_for_us:
  assumes m: "mbufs w p = Some m" and len: "42 \<le> length (buf m)" and D: "dpdk_ok D"
    and port: "unat port < length (ports (config_of w))"
    and no: "rd16 (buf m) 20 \<noteq> bswap16 ARP_OP_REQUEST \<or>
      \<not> port_ip_match (ip_addresses (ports (config_of w) ! unat port)) (bswap32 (rd32 (buf m) 38)) (VLAN_ID m)"
  shows "arp_handle D p port w = Some (- 1, w)"
proof -
  have mac: "length (rte_eth_macaddr_get D port) = 6" using D by (simp add: dpdk_ok_def)
  have "bswap16 (rd16 (buf m) 20) = ARP_OP_REQUEST \<longleftrightarrow> rd16 (buf m) 20 = bswap16 ARP_OP_REQUEST"
    by (metis bswap16_bswap16)
  then show ?thesis
    using no m len arp_request_eq [OF m len mac port] by (auto simp: arp_handle_def pkt_simps buf_simps)
qed

section \<open>The contract\<close>

lemma port_ip_match_iff:
  "port_ip_match as ip vlan \<longleftrightarrow> (\<exists>a \<in> set as. pia_ip a = ip \<and> uint (pia_vlan a) = vlan)"
  by (induction as) auto

interpretation arp: packet_handler arp_handle roomy
proof
  fix D p ps w port
  assume D: "dpdk_ok D" and own: "owns (p # ps) w" and room: "roomy p w"
    and c: "config_ok D (length (queues_of w)) (config_of w)" and "no_pass (config_of w)"
    and dev: "unat (port :: u8) < rte_eth_dev_count D"
  obtain m where m: "mbufs w p = Some m" and len: "62 \<le> length (buf m)"
    using own room by (rule owned_pkt)
  have port: "unat port < length (ports (config_of w))" "unat port < length (queues_of w)"
    using c dev by (simp_all add: config_ok_def)
  have mac: "length (rte_eth_macaddr_get D port) = 6" using D by (simp add: dpdk_ok_def)
  let ?b = "arp_reply_buf (rte_eth_macaddr_get D port) (buf m)"
  obtain n w' where tx: "tx_send D p port (unat port) (set_pkt p (m\<lparr>buf := ?b\<rparr>) w) = Some (n, w')"
      "owns ps w'" "evolves ps w w'"
    using tx.forge_and_send [OF D own port(2)] by blast
  have eq: "arp_request D p port w = (if port_ip_match (ip_addresses (ports (config_of w) ! unat port))
      (bswap32 (rd32 (buf m) 38)) (VLAN_ID m) then Some (uint n, w') else Some (- 1, w))"
    using arp_request_eq [OF m _ mac port(1)] len tx(1) by simp
  show "\<exists>r w'. arp_handle D p port w = Some (r, w') \<and> evolves ps w w' \<and>
      (if r < 0 then owns (p # ps) w' else owns ps w')"
    using m len eq tx own by (auto simp: arp_handle_def pkt_simps buf_simps)
qed


section \<open>Samples\<close>

text \<open>A request of 10.0.0.9 for 10.0.0.1, an address of port 0.\<close>

definition arp_pkt :: bytes where
  "arp_pkt =
   [255, 255, 255, 255, 255, 255, 2, 0, 0, 0, 0, 2, 8, 6,
    0, 1, 8, 0, 6, 4, 0, 1, 2, 0, 0, 0, 0, 2, 10, 0, 0, 9,
    0, 0, 0, 0, 0, 0, 10, 0, 0, 1]"

lemma arp_pkt_facts:
  "length arp_pkt = 42" "rd16 arp_pkt 20 = bswap16 ARP_OP_REQUEST" "rd32 arp_pkt 38 = bswap32 0x0A000001"
  "rdn arp_pkt 6 6 = [2, 0, 0, 0, 0, 2]"
  by (simp_all add: arp_pkt_def rd16_def rd32_def bswap16_def bswap32_def byte_of_def le16_def le32_def
      ARP_OP_REQUEST_def rdn_def)

theorem arp_reply_correct_witness:
  "\<exists>m'. arp_handle dpdk0 0 0 (sample_world arp_pkt) = do {
      (n, w) \<leftarrow> tx_send dpdk0 0 0 (unat (0 :: u8)) (set_pkt 0 m' (sample_world arp_pkt)); Some (uint n, w) } \<and>
    rdn (buf m') 0 6 = [2, 0, 0, 0, 0, 2] \<and> rdn (buf m') 22 6 = [0x52, 0x54, 0, 0, 0, 0]"
proof -
  have "port_ip_match (ip_addresses (ports (config_of (sample_world arp_pkt)) ! unat (0 :: u8)))
      (bswap32 (rd32 arp_pkt 38)) (VLAN_ID (mbuf_of arp_pkt))"
    by (simp add: arp_pkt_facts sample_world_def config0_def VLAN_ID_def mbuf_of_def)
  moreover have "unat (0 :: u8) < length (ports (config_of (sample_world arp_pkt)))"
    by (simp add: sample_world_def config0_def)
  moreover have "[0x52, 0x54, 0, 0, 0, 0] = rte_eth_macaddr_get dpdk0 0" by (simp add: dpdk0_def)
  ultimately show ?thesis
    using arp_reply_correct [of "sample_world arp_pkt" 0 "mbuf_of arp_pkt" dpdk0 0 "[0x52, 0x54, 0, 0, 0, 0]"]
      arp_pkt_facts by auto
qed

theorem arp_not_for_us_witness:
  "arp_handle dpdk0 0 1 (sample_world arp_pkt) = Some (- 1, sample_world arp_pkt)"
proof (rule arp_not_for_us)
  show "mbufs (sample_world arp_pkt) 0 = Some (mbuf_of arp_pkt)" by simp
  show "unat (1 :: u8) < length (ports (config_of (sample_world arp_pkt)))"
    by (simp add: sample_world_def config0_def)
qed (simp_all add: arp_pkt_facts sample_world_def config0_def)

end
