(* ===== verification/Core_Loop.thy ===== *)
theory Core_Loop
  imports Arp
begin

text \<open>
  The packet loop of a worker, \<open>src/src/core.c\<close>: \<open>dispatch_packet\<close>,
  \<open>handle_port\<close> and \<open>main_loop\<close>.

  What the NIC delivers is an argument: \<open>rte_eth_rx_burst\<close> is a function of the port,
  the queue and the state to the addresses and contents of the packets it yields, a new one
  for every round.  \<open>nic_ok\<close> says what its documentation promises: no more than asked for, and
  buffers that nobody else holds.  A run of \<open>main_loop\<close> is given by the list of its rounds;
  \<open>force_quit\<close> is seen after the last one.
\<close>

section \<open>Operations\<close>

definition ETHER_TYPE_IPv4 :: u16 where "ETHER_TYPE_IPv4 = 0x0800"
definition ETHER_TYPE_ARP :: u16 where "ETHER_TYPE_ARP = 0x0806"
definition NAT_FLAG_USED :: u32 where "NAT_FLAG_USED = 1"

text \<open>The macro \<open>_htons\<close>, at the width of \<open>unsigned int\<close>.\<close>

definition htons_macro :: "u32 \<Rightarrow> u32" where
  "htons_macro x = push_bit 8 (x AND 0x00ff) OR drop_bit 8 (x AND 0xff00)"

definition dispatch_packet :: "dpdk \<Rightarrow> ptr \<Rightarrow> u8 \<Rightarrow> world \<Rightarrow> (int \<times> world) option" where
  "dispatch_packet D p port w = do {
     m \<leftarrow> mbufs w p;
     if ol_flags m AND PKT_RX_IP_CKSUM_MASK = PKT_RX_IP_CKSUM_BAD then do {
       w \<leftarrow> rte_pktmbuf_free p (upd_stats (drop_bad_l3_cksum_update (\<lambda>n. n + 1)) w);
       Some (- 1, w) }
     else do {
       let w = (if ol_flags m AND PKT_RX_L4_CKSUM_MASK = PKT_RX_L4_CKSUM_BAD
                then upd_stats (rx_bad_l4_cksum_update (\<lambda>n. n + 1)) w else w);
       eth_type \<leftarrow> pkt_ld16 p (eth_header + eth_ether_type) w;
       (status, w) \<leftarrow>
         (if ucast eth_type = htons_macro (ucast ETHER_TYPE_IPv4) then ipv4_handle D p port w
          else if ucast eth_type = htons_macro (ucast ETHER_TYPE_ARP) then arp_handle D p port w
          else Some (- 1, w));
       if status < 0 then do {
         w \<leftarrow> rte_pktmbuf_free p (upd_stats (drop_unhandled_ethertype_update (\<lambda>n. n + 1)) w);
         Some (0, w) }
       else Some (0, w) } }"

text \<open>
  The loop over a burst: the next packet is prefetched (its buffer header is read) before the
  current one is dispatched.
\<close>

fun dispatch_all :: "dpdk \<Rightarrow> u8 \<Rightarrow> ptr list \<Rightarrow> world \<Rightarrow> world option" where
  "dispatch_all D port [] w = Some w"
| "dispatch_all D port [p] w = do { (_, w) \<leftarrow> dispatch_packet D p port w; Some w }"
| "dispatch_all D port (p # q # ps) w = do {
     _ \<leftarrow> mbufs w q;
     (_, w) \<leftarrow> dispatch_packet D p port w;
     dispatch_all D port (q # ps) w }"

definition RX_BURST :: nat where [simp]: "RX_BURST = 32"

type_synonym burst = "(ptr \<times> rte_mbuf) list"

definition rx_arrive :: "burst \<Rightarrow> world \<Rightarrow> world" where
  "rx_arrive rx w = w\<lparr>mbufs := (mbufs w)(map fst rx [\<mapsto>] map snd rx), arrived := arrived w + length rx\<rparr>"

type_synonym nic = "u8 \<Rightarrow> u16 \<Rightarrow> world \<Rightarrow> burst"

definition handle_port :: "dpdk \<Rightarrow> nic \<Rightarrow> u8 \<Rightarrow> world \<Rightarrow> (int \<times> world) option" where
  "handle_port D nic port w = do {
     guard (unat port < length (rx_queues (wcore w)));
     let pkts = nic port (rx_queues (wcore w) ! unat port) w;
     let nb_pkts = length pkts;
     let w = rx_arrive pkts w;
     if nb_pkts = 0 then Some (0, w)
     else do {
       w \<leftarrow> dispatch_all D port (map fst pkts) w;
       Some (int (nb_pkts - 1), w) } }"

fun handle_ports :: "dpdk \<Rightarrow> nic \<Rightarrow> nat list \<Rightarrow> world \<Rightarrow> world option" where
  "handle_ports D nic [] w = Some w"
| "handle_ports D nic (port # rest) w = do {
     (_, w) \<leftarrow> handle_port D nic (of_nat port) w;
     handle_ports D nic rest w }"

fun flush_ports :: "dpdk \<Rightarrow> nat list \<Rightarrow> world \<Rightarrow> world option" where
  "flush_ports D [] w = Some w"
| "flush_ports D (port # rest) w = do {
     (_, w) \<leftarrow> tx_flush D (of_nat port) port w;
     flush_ports D rest w }"

definition set_used :: "world \<Rightarrow> world" where
  "set_used w = w\<lparr>wcore := (wcore w)\<lparr>core_config := (config_of w)
     \<lparr>flags := flags (config_of w) OR NAT_FLAG_USED\<rparr>\<rparr>\<rparr>"

definition main_round :: "dpdk \<Rightarrow> nic \<Rightarrow> world \<Rightarrow> world option" where
  "main_round D nic w = do {
     let w = set_used w;
     w \<leftarrow> handle_ports D nic [0..<rte_eth_dev_count D] w;
     flush_ports D [0..<rte_eth_dev_count D] w }"

fun main_loop :: "dpdk \<Rightarrow> nic list \<Rightarrow> world \<Rightarrow> world option" where
  "main_loop D [] w = Some w"
| "main_loop D (nic # nics) w = do { w \<leftarrow> main_round D nic w; main_loop D nics w }"

section \<open>One packet\<close>

lemma htons_types:
  "htons_macro (ucast ETHER_TYPE_IPv4) = ucast (bswap16 ETHER_TYPE_IPv4)"
  "htons_macro (ucast ETHER_TYPE_ARP) = ucast (bswap16 ETHER_TYPE_ARP)"
  by (simp_all add: htons_macro_def ETHER_TYPE_IPv4_def ETHER_TYPE_ARP_def bswap16_def le16_def byte_of_def)

lemma ucast_u16_inject [simp]: "(ucast (a :: u16) :: u32) = ucast b \<longleftrightarrow> a = b"
  by (metis unat_ucast_wider(3) word_unat_eq_iff)

text \<open>What the NIC may deliver: room for the headers and, if it is IPv4, a sane length.\<close>

definition rx_frame :: "rte_mbuf \<Rightarrow> bool" where
  "rx_frame m \<longleftrightarrow> 62 \<le> length (buf m) \<and> (rd16 (buf m) 12 = bswap16 ETHER_TYPE_IPv4 \<longrightarrow> frame_ok m)"

text \<open>What a worker needs to know about its configuration.\<close>

definition worker_ok :: "dpdk \<Rightarrow> world \<Rightarrow> bool" where
  "worker_ok D w \<longleftrightarrow> dpdk_ok D \<and> config_ok D (length (queues_of w)) (config_of w) \<and>
     no_pass (config_of w) \<and> rte_eth_dev_count D \<le> length (rx_queues (wcore w))"

lemma worker_ok_evolves: "worker_ok D w \<Longrightarrow> evolves ps w w' \<Longrightarrow> worker_ok D w'"
  by (simp add: worker_ok_def evolves_def)

lemma drop_and_free:
  assumes own: "owns (p # ps) w" and f: "\<And>s. drops (f s) = drops s + 1"
  shows "\<exists>w'. rte_pktmbuf_free p (upd_stats f w) = Some w' \<and> owns ps w' \<and> evolves ps w w'"
proof -
  obtain m where m: "mbufs w p = Some m" using owns_live [OF own] by auto
  have "rte_pktmbuf_free p (upd_stats f w) =
      Some (upd_stats f (w\<lparr>mbufs := (mbufs w)(p := None), freed := freed w @ [p]\<rparr>))"
    using m by (simp add: rte_pktmbuf_free_def upd_stats_def)
  then show ?thesis using handled_drop [OF own f, of "- 1"] by (simp add: handled_def)
qed


lemma evolves_rx_bad_l4: "evolves ps w (upd_stats (rx_bad_l4_cksum_update f) w)"
  by (simp add: evolves_def drops_def packets_def) (simp add: upd_stats_def)

lemma dispatch_packet_consumes:
  assumes ok: "worker_ok D w" and own: "owns (p # ps) w" and port: "unat port < rte_eth_dev_count D"
    and fr: "\<And>m. mbufs w p = Some m \<Longrightarrow> rx_frame m"
  shows "\<exists>r w'. dispatch_packet D p port w = Some (r, w') \<and> owns ps w' \<and> evolves ps w w'"
proof -
  obtain m where m: "mbufs w p = Some m" using owns_live [OF own] by auto
  show ?thesis
  proof (cases "ol_flags m AND PKT_RX_IP_CKSUM_MASK = PKT_RX_IP_CKSUM_BAD")
    case True
    have "\<And>s. drops (drop_bad_l3_cksum_update (\<lambda>n. n + 1) s) = drops s + 1" by (simp add: drops_def)
    then show ?thesis using drop_and_free [OF own] m True by (fastforce simp: dispatch_packet_def)
  next
    case False
    define w1 where "w1 = (if ol_flags m AND PKT_RX_L4_CKSUM_MASK = PKT_RX_L4_CKSUM_BAD
      then upd_stats (rx_bad_l4_cksum_update (\<lambda>n. n + 1)) w else w)"
    have w1: "evolves ps w w1" "owns (p # ps) w1" "mbufs w1 = mbufs w"
      using own by (auto simp: w1_def evolves_rx_bad_l4)
    have ok1: "dpdk_ok D" "config_ok D (length (queues_of w1)) (config_of w1)" "no_pass (config_of w1)"
      using worker_ok_evolves [OF ok w1(1)] by (simp_all add: worker_ok_def)
    let ?f = "drop_unhandled_ethertype_update (\<lambda>n. n + 1)"
    have f: "\<And>s. drops (?f s) = drops s + 1" by (simp add: drops_def)
    let ?h = "if rd16 (buf m) 12 = bswap16 ETHER_TYPE_IPv4 then ipv4_handle D p port w1
      else if rd16 (buf m) 12 = bswap16 ETHER_TYPE_ARP then arp_handle D p port w1 else Some (- 1, w1)"
    have "\<exists>w'. do { (r, w) \<leftarrow> ?h; if r < 0 then rte_pktmbuf_free p (upd_stats ?f w) else Some w } = Some w' \<and>
        owns ps w' \<and> evolves ps w1 w'"
    proof -
      have "frame_at p w1" if "rd16 (buf m) 12 = bswap16 ETHER_TYPE_IPv4"
        using that fr m w1(3) by (simp add: frame_at_def rx_frame_def)
      moreover have "roomy p w1" using fr m w1(3) by (simp add: roomy_def rx_frame_def)
      ultimately show ?thesis
        using ip4.handle_or_drop [OF ok1(1) w1(2) _ ok1(2,3) port f]
          arp.handle_or_drop [OF ok1(1) w1(2) _ ok1(2,3) port f] drop_and_free [OF w1(2) f]
        by (simp split: if_split)
    qed
    then obtain w' where w': "do { (r, w) \<leftarrow> ?h; if r < 0 then rte_pktmbuf_free p (upd_stats ?f w) else Some w } = Some w'"
        "owns ps w'" "evolves ps w1 w'" by blast
    have "dispatch_packet D p port w = do {
        w \<leftarrow> do { (r, w) \<leftarrow> ?h; if r < 0 then rte_pktmbuf_free p (upd_stats ?f w) else Some w }; Some (0, w) }"
    proof -
      have "pkt_ld16 p 12 w1 = Some (rd16 (buf m) 12)"
        using fr m w1(3) by (simp add: pkt_simps buf_simps rx_frame_def)
      then have e: "dispatch_packet D p port w = do { (status, w) \<leftarrow> ?h;
          if status < 0 then do { w \<leftarrow> rte_pktmbuf_free p (upd_stats ?f w); Some (0, w) } else Some (0, w) }"
        using m False by (simp add: dispatch_packet_def w1_def [symmetric] htons_types)
      show ?thesis unfolding e by (cases ?h) auto
    qed
    then show ?thesis using w' evolves_trans [OF w1(1)] by auto
  qed
qed


section \<open>Bursts and rounds\<close>

definition frames_ok :: "ptr list \<Rightarrow> world \<Rightarrow> bool" where
  "frames_ok ps w \<longleftrightarrow> (\<forall>p \<in> set ps. \<forall>m. mbufs w p = Some m \<longrightarrow> rx_frame m)"

lemma frames_ok_evolves: "frames_ok ps w \<Longrightarrow> evolves ps w w' \<Longrightarrow> frames_ok ps w'"
  by (simp add: frames_ok_def evolves_def)

lemma dispatch_all_consumes:
  assumes "worker_ok D w" "owns ps w" "frames_ok ps w" "unat port < rte_eth_dev_count D"
  shows "\<exists>w'. dispatch_all D port ps w = Some w' \<and> owns [] w' \<and> evolves [] w w'"
  using assms
proof (induction D port ps w rule: dispatch_all.induct)
  case (2 D port p w)
  then show ?case using dispatch_packet_consumes [of D w p "[]" port] by (auto simp: frames_ok_def)
next
  case (3 D port p q ps w)
  obtain r w1 where 1: "dispatch_packet D p port w = Some (r, w1)" "owns (q # ps) w1" "evolves (q # ps) w w1"
    using dispatch_packet_consumes [OF "3.prems"(1,2,4)] "3.prems"(3) by (auto simp: frames_ok_def)
  obtain m where m: "mbufs w q = Some m" using owns_live [OF "3.prems"(2), of q] by auto
  have fr: "frames_ok (q # ps) w1"
    by (rule frames_ok_evolves [OF _ 1(3)]) (use "3.prems"(3) in \<open>simp add: frames_ok_def\<close>)
  obtain w' where "dispatch_all D port (q # ps) w1 = Some w'" "owns [] w'" "evolves [] w1 w'"
    using "3.IH" [OF m, of "(r, w1)" r w1] 1 fr worker_ok_evolves [OF "3.prems"(1) 1(3)] "3.prems"(4) by auto
  then show ?case using 1 m evolves_trans [OF evolves_subset [OF 1(3)]] by simp
qed auto

text \<open>A burst of \<open>rte_eth_rx_burst\<close>.\<close>

definition rx_ok :: "burst \<Rightarrow> world \<Rightarrow> bool" where
  "rx_ok rx w \<longleftrightarrow> length rx \<le> RX_BURST \<and> distinct (map fst rx) \<and>
     set (map fst rx) \<inter> dom (mbufs w) = {} \<and> (\<forall>m \<in> set (map snd rx). rx_frame m)"

lemma owns_rx_arrive:
  assumes "rx_ok rx w" "owns [] w"
  shows "owns (map fst rx) (rx_arrive rx w)"
  using assms
  by (auto simp: rx_ok_def owns_def shares_def has_room_def rx_arrive_def all_queued_def)

lemma frames_ok_rx_arrive:
  assumes "rx_ok rx w"
  shows "frames_ok (map fst rx) (rx_arrive rx w)"
  unfolding frames_ok_def
proof (intro ballI allI impI)
  fix p m assume p: "p \<in> set (map fst rx)" and m: "mbufs (rx_arrive rx w) p = Some m"
  obtain k where k: "k < length rx" "p = map fst rx ! k" using p by (auto simp: in_set_conv_nth)
  then have "mbufs (rx_arrive rx w) p = Some (map snd rx ! k)"
    using assms map_upds_nth [of "map snd rx" "map fst rx" k "mbufs w"] by (simp add: rx_arrive_def rx_ok_def)
  then show "rx_frame m" using m k assms by (auto simp: rx_ok_def)
qed

definition nic_ok :: "nic \<Rightarrow> bool" where
  "nic_ok nic \<longleftrightarrow> (\<forall>port q w. rx_ok (nic port q w) w)"

text \<open>
  The same as \<open>evolves []\<close>, but packets may arrive, and up to the flags of the configuration.
\<close>

definition advances :: "world \<Rightarrow> world \<Rightarrow> bool" where
  "advances w w' \<longleftrightarrow>
    rules (config_of w') = rules (config_of w) \<and> ports (config_of w') = ports (config_of w) \<and>
    nat_lookup (config_of w') = nat_lookup (config_of w) \<and>
    rx_queues (wcore w') = rx_queues (wcore w) \<and> length (queues_of w') = length (queues_of w) \<and>
    prefix (freed w) (freed w') \<and> prefix (wire w) (wire w') \<and>
    drops (stats_of w') - of_nat (length (freed w')) = drops (stats_of w) - of_nat (length (freed w)) \<and>
    packets w' + arrived w = packets w + arrived w'"

lemma advances_refl [simp]: "advances w w"
  by (simp add: advances_def)

lemma advances_trans [trans]: "advances u v \<Longrightarrow> advances v w \<Longrightarrow> advances u w"
proof -
  assume "advances u v" "advances v w"
  then show "advances u w"
    unfolding advances_def by (simp del: add_diff_eq) (metis prefix_order.trans)
qed

lemma worker_ok_advances: "worker_ok D w \<Longrightarrow> advances w w' \<Longrightarrow> worker_ok D w'"
  by (simp add: worker_ok_def advances_def config_ok_def no_pass_def)

lemma owns_finite: "owns ps w \<Longrightarrow> finite (dom (mbufs w))"
  by (simp add: owns_def shares_def)

lemma advances_evolves: "owns ps w \<Longrightarrow> evolves qs w w' \<Longrightarrow> advances w w'"
  by (simp add: advances_def evolves_def owns_finite)

lemma advances_rx_arrive:
  assumes "rx_ok rx w" "owns [] w"
  shows "advances w (rx_arrive rx w)"
proof -
  have "card (dom (mbufs w) \<union> set (map fst rx)) = card (dom (mbufs w)) + length rx"
    using assms owns_finite distinct_card [of "map fst rx"]
    by (subst card_Un_disjoint) (auto simp: rx_ok_def)
  then show ?thesis by (simp add: advances_def rx_arrive_def packets_def Un_commute)
qed

lemma handle_port_consumes:
  assumes ok: "worker_ok D w" and nic: "nic_ok nic" and own: "owns [] w" and port: "unat port < rte_eth_dev_count D"
  shows "\<exists>r w'. handle_port D nic port w = Some (r, w') \<and> owns [] w' \<and> advances w w'"
proof -
  define rx where "rx = nic port (rx_queues (wcore w) ! unat port) w"
  have rx: "rx_ok rx w" using nic by (simp add: nic_ok_def rx_def)
  let ?w = "rx_arrive rx w"
  have adv: "advances w ?w" by (rule advances_rx_arrive [OF rx own])
  have own': "owns (map fst rx) ?w" by (rule owns_rx_arrive [OF rx own])
  obtain w' where w': "dispatch_all D port (map fst rx) ?w = Some w'" "owns [] w'" "evolves [] ?w w'"
    using dispatch_all_consumes [OF worker_ok_advances [OF ok adv] own' frames_ok_rx_arrive [OF rx] port] by blast
  have "advances w w'" using adv advances_evolves [OF own' w'(3)] by (rule advances_trans)
  moreover have "unat port < length (rx_queues (wcore w))" using ok port by (simp add: worker_ok_def)
  ultimately show ?thesis using w' adv own'
    by (cases "rx = []") (simp_all add: handle_port_def Let_def rx_def [symmetric])
qed

lemma handle_ports_consume:
  assumes "worker_ok D w" "nic_ok nic" "owns [] w" "\<forall>i \<in> set is. i < rte_eth_dev_count D"
  shows "\<exists>w'. handle_ports D nic is w = Some w' \<and> owns [] w' \<and> advances w w'"
  using assms
proof (induction "is" arbitrary: w)
  case (Cons i "is")
  have "i < 256" using Cons.prems by (simp add: worker_ok_def config_ok_def)
  then have i: "unat (of_nat i :: u8) < rte_eth_dev_count D" using Cons.prems(4) by (simp add: unat_of_nat)
  obtain r w1 where 1: "handle_port D nic (of_nat i) w = Some (r, w1)" "owns [] w1" "advances w w1"
    using handle_port_consumes [OF Cons.prems(1-3) i] by blast
  then show ?case
    using Cons.IH [OF worker_ok_advances [OF Cons.prems(1) 1(3)] Cons.prems(2) 1(2)] Cons.prems(4)
      advances_trans [OF 1(3)] by auto
qed simp


lemma flush_ports_ok:
  assumes "dpdk_ok D" "owns [] w" "\<forall>i \<in> set is. i < length (queues_of w)"
  shows "\<exists>w'. flush_ports D is w = Some w' \<and> owns [] w' \<and> evolves [] w w' \<and>
    (\<forall>j < length (queues_of w). j \<in> set is \<or> queued (queues_of w ! j) = [] \<longrightarrow> queued (queues_of w' ! j) = [])"
  using assms
proof (induction "is" arbitrary: w)
  case (Cons i "is")
  have i: "i < length (queues_of w)" using Cons.prems by simp
  obtain sent w1 where 1: "tx_flush D (of_nat i) i w = Some (sent, w1)" "owns [] w1" "evolves [] w w1"
    and q: "queues_of w1 = (queues_of w)[i := (queues_of w ! i)\<lparr>tq_len := 0\<rparr>]"
    by (rule tx_flush_owns [OF Cons.prems(1,2) i])
  obtain w' where 2: "flush_ports D is w1 = Some w'" "owns [] w'" "evolves [] w1 w'"
    "\<forall>j < length (queues_of w1). j \<in> set is \<or> queued (queues_of w1 ! j) = [] \<longrightarrow> queued (queues_of w' ! j) = []"
    using Cons.IH [OF Cons.prems(1) 1(2)] Cons.prems(3) q by auto
  have "queued (queues_of w' ! j) = []"
    if "j < length (queues_of w)" "j \<in> set (i # is) \<or> queued (queues_of w ! j) = []" for j
  proof -
    have "j \<in> set is \<or> queued (queues_of w1 ! j) = []"
      using that i q by (cases "j = i") (auto simp: queued_def)
    then show ?thesis using 2(4) that(1) q by (metis length_list_update)
  qed
  with 1 2 evolves_trans [OF 1(3) 2(3)] show ?case by auto
qed simp

lemma set_used_facts:
  "owns ps (set_used w) = owns ps w" "advances w (set_used w)" "queues_of (set_used w) = queues_of w"
  by (simp_all add: set_used_def owns_def shares_def has_room_def all_queued_def advances_def packets_def)

lemma main_round_ok:
  assumes ok: "worker_ok D w" and nic: "nic_ok nic" and own: "owns [] w"
  shows "\<exists>w'. main_round D nic w = Some w' \<and> owns [] w' \<and> advances w w' \<and>
    (\<forall>i < rte_eth_dev_count D. queued (queues_of w' ! i) = [])"
proof -
  let ?is = "[0..<rte_eth_dev_count D]"
  have u: "worker_ok D (set_used w)" "owns [] (set_used w)"
    using worker_ok_advances [OF ok set_used_facts(2)] own by (simp_all add: set_used_facts)
  obtain w1 where 1: "handle_ports D nic ?is (set_used w) = Some w1" "owns [] w1" "advances (set_used w) w1"
    using handle_ports_consume [OF u(1) nic u(2), of ?is] by auto
  have w1: "worker_ok D w1" by (rule worker_ok_advances [OF u(1) 1(3)])
  then have D: "dpdk_ok D" and n: "rte_eth_dev_count D \<le> length (queues_of w1)"
    by (simp_all add: worker_ok_def config_ok_def)
  obtain w' where 2: "flush_ports D ?is w1 = Some w'" "owns [] w'" "evolves [] w1 w'"
      "\<forall>j < length (queues_of w1). j \<in> set ?is \<or> queued (queues_of w1 ! j) = [] \<longrightarrow> queued (queues_of w' ! j) = []"
    using flush_ports_ok [OF D 1(2), of ?is] n by auto
  have "advances w w'"
    using advances_trans [OF advances_trans [OF set_used_facts(2) 1(3)] advances_evolves [OF 1(2) 2(3)]] .
  with 1 2 n show ?thesis by (auto simp: main_round_def)
qed

lemma main_loop_ok:
  assumes "worker_ok D w" "\<forall>nic \<in> set nics. nic_ok nic" "owns [] w"
  shows "\<exists>w'. main_loop D nics w = Some w' \<and> owns [] w' \<and> advances w w' \<and>
    (nics \<noteq> [] \<longrightarrow> (\<forall>i < rte_eth_dev_count D. queued (queues_of w' ! i) = []))"
  using assms
proof (induction nics arbitrary: w)
  case (Cons nic nics)
  then have nic: "nic_ok nic" by simp
  obtain w1 where 1: "main_round D nic w = Some w1" "owns [] w1" "advances w w1"
      "\<forall>i < rte_eth_dev_count D. queued (queues_of w1 ! i) = []"
    using main_round_ok [OF Cons.prems(1) nic Cons.prems(3)] by blast
  obtain w' where "main_loop D nics w1 = Some w'" "owns [] w'" "advances w1 w'"
      "nics \<noteq> [] \<longrightarrow> (\<forall>i < rte_eth_dev_count D. queued (queues_of w' ! i) = [])"
    using Cons.IH [OF worker_ok_advances [OF Cons.prems(1) 1(3)] _ 1(2)] Cons.prems(2) by auto
  with 1 advances_trans [OF 1(3)] show ?case by (cases "nics = []") auto
qed simp

text \<open>
  C1. A worker is safe: however many rounds \<open>main_loop\<close> runs and whatever (well-formed) packets
  the NIC delivers, no operation is undefined (no access outside a packet or to a packet that
  was freed or sent, no queue overflow, no double free), and afterwards the worker holds exactly the
  packets in its queues: none has leaked.
\<close>

theorem main_loop_safe:
  assumes "worker_ok D w" "\<forall>nic \<in> set nics. nic_ok nic" "owns [] w"
  shows "\<exists>w'. main_loop D nics w = Some w' \<and> owns [] w'"
  using main_loop_ok [OF assms] by blast

text \<open>
  C5. The books balance: every packet received has been sent to the NIC, freed, or waits in a
  transmit queue, and the six drop counters together count exactly the packets freed.
\<close>

theorem main_loop_accounting:
  assumes "worker_ok D w" "\<forall>nic \<in> set nics. nic_ok nic" "owns [] w"
    and "packets w = arrived w" "drops (stats_of w) = of_nat (length (freed w))"
    and "main_loop D nics w = Some w'"
  shows "arrived w' = length (wire w') + length (freed w') + length (all_queued w') \<and>
    drops (stats_of w') = of_nat (length (freed w'))"
proof -
  have w': "owns [] w'" "advances w w'" using main_loop_ok [OF assms(1-3)] assms(6) by auto
  then have "dom (mbufs w') = set (all_queued w')" "distinct (all_queued w')"
    by (simp_all add: owns_def shares_def)
  then have "card (dom (mbufs w')) = length (all_queued w')" by (simp add: distinct_card)
  then show ?thesis using w'(2) assms(4,5) by (simp add: advances_def packets_def)
qed

text \<open>
  C32. No packet waits for the next round: after every round the transmit queue of every port is
  empty.
\<close>

theorem main_loop_drains:
  assumes "worker_ok D w" "\<forall>nic \<in> set nics. nic_ok nic" "owns [] w" "nics \<noteq> []"
    and "i < rte_eth_dev_count D"
  shows "\<exists>w'. main_loop D nics w = Some w' \<and> queued (queues_of w' ! i) = []"
  using main_loop_ok [OF assms(1-3)] assms(4,5) by blast

text \<open>
  A packet whose IPv4 header checksum the NIC found wrong is freed and counted as such before
  anything else looks at it: no rule runs and nothing is sent.
\<close>

theorem dispatch_bad_l3_checksum:
  assumes "mbufs w p = Some m" and "ol_flags m AND PKT_RX_IP_CKSUM_MASK = PKT_RX_IP_CKSUM_BAD"
  shows "\<exists>w'. dispatch_packet D p port w = Some (- 1, w') \<and> mbufs w' = (mbufs w)(p := None) \<and>
    freed w' = freed w @ [p] \<and> wire w' = wire w \<and> queues_of w' = queues_of w \<and>
    stats_of w' = (stats_of w)\<lparr>drop_bad_l3_cksum := drop_bad_l3_cksum (stats_of w) + 1\<rparr>"
  using assms by (simp add: dispatch_packet_def rte_pktmbuf_free_def)


section \<open>Samples\<close>

definition sample_worker :: world where
  "sample_worker = world0 (config0\<lparr>nat_lookup := sample_table, rules := sample_rules\<rparr>) []"

definition sample_nic :: nic where
  "sample_nic port q w = (if port = 0 \<and> mbufs w 0 = None then [(0, mbuf_of tcp_pkt)] else [])"

lemma sample_worker_ok: "worker_ok dpdk0 sample_worker" "owns [] sample_worker"
  "packets sample_worker = arrived sample_worker"
  "drops (stats_of sample_worker) = of_nat (length (freed sample_worker))"
proof -
  show "worker_ok dpdk0 sample_worker"
    using sample_rules_ok
    by (simp add: worker_ok_def sample_worker_def config_ok_def no_pass_def dpdk0_def [THEN arg_cong, of rte_eth_dev_count]
        config0_def) (simp add: world0_def)
  show "owns [] sample_worker"
    by (auto simp: sample_worker_def owns_def shares_def has_room_def all_queued_def queued_def empty_queue_def
      queue_ok_def world0_def map_replicate_const concat_replicate_trivial)
  show "packets sample_worker = arrived sample_worker"
    by (simp add: sample_worker_def packets_def world0_def)
  show "drops (stats_of sample_worker) = of_nat (length (freed sample_worker))"
    by (simp add: sample_worker_def drops_def stats0_def)
qed

lemma sample_nic_ok: "nic_ok sample_nic"
proof -
  have "length tcp_pkt = 62" "ip_len tcp_pkt = 48"
    by (simp_all add: tcp_pkt_def ip_len_def rd16_def bswap16_def byte_of_def le16_def)
  then have "rx_frame (mbuf_of tcp_pkt)" by (simp add: rx_frame_def frame_ok_def mbuf_of_def)
  then show ?thesis by (auto simp: nic_ok_def rx_ok_def sample_nic_def)
qed

theorem main_loop_safe_witness:
  "\<exists>w'. main_loop dpdk0 [sample_nic, sample_nic] sample_worker = Some w' \<and> owns [] w'"
  using main_loop_safe [OF sample_worker_ok(1) _ sample_worker_ok(2), of "[sample_nic, sample_nic]"]
    sample_nic_ok by simp

theorem main_loop_accounting_witness:
  "\<exists>w'. main_loop dpdk0 [sample_nic] sample_worker = Some w' \<and>
    arrived w' = length (wire w') + length (freed w') + length (all_queued w') \<and>
    drops (stats_of w') = of_nat (length (freed w'))"
proof -
  have nic: "\<forall>nic \<in> set [sample_nic]. nic_ok nic" using sample_nic_ok by simp
  obtain w' where "main_loop dpdk0 [sample_nic] sample_worker = Some w'"
    using main_loop_ok [OF sample_worker_ok(1) nic sample_worker_ok(2)] by blast
  then show ?thesis
    using main_loop_accounting [OF sample_worker_ok(1) nic sample_worker_ok(2-4)] by blast
qed

theorem main_loop_drains_witness:
  "\<exists>w'. main_loop dpdk0 [sample_nic] sample_worker = Some w' \<and> queued (queues_of w' ! 1) = []"
  using main_loop_drains [OF sample_worker_ok(1) _ sample_worker_ok(2), of "[sample_nic]" 1] sample_nic_ok
  by (simp add: dpdk0_def)

theorem dispatch_bad_l3_checksum_witness:
  "\<exists>w'. dispatch_packet dpdk0 0 0 (world0 config0 [(mbuf_of tcp_pkt)\<lparr>ol_flags := PKT_RX_IP_CKSUM_BAD\<rparr>]) =
      Some (- 1, w') \<and> freed w' = [0] \<and> drop_bad_l3_cksum (stats_of w') = 1"
proof -
  let ?m = "(mbuf_of tcp_pkt)\<lparr>ol_flags := PKT_RX_IP_CKSUM_BAD\<rparr>"
  have "ol_flags ?m AND PKT_RX_IP_CKSUM_MASK = PKT_RX_IP_CKSUM_BAD"
    by (simp add: PKT_RX_IP_CKSUM_MASK_def PKT_RX_IP_CKSUM_BAD_def)
  then show ?thesis
    using dispatch_bad_l3_checksum [of "world0 config0 [?m]" 0 ?m dpdk0 0] by (auto simp: stats0_def)
qed

end
