(* ===== verification/Reload.thy ===== *)
theory Reload
  imports Core_Loop
begin

text \<open>
  Reloading the configuration while the workers run: \<open>app_config_reload_all\<close> of
  \<open>src/src/config.c\<close> on the master against \<open>main_loop\<close> of \<open>src/src/core.c\<close> on
  the workers, as interleavings of their memory accesses.

  The master swaps the pointer \<open>cores[c].app_config\<close>, waits until the worker has set
  \<open>NAT_FLAG_USED\<close> in the new configuration, and frees the old one.  A worker reads the pointer
  many times in a round (the flag at the top, then in every function that looks at the
  configuration) and may go on using what it has read until the round ends.  The model keeps the set
  of all configurations a worker has read in its round; every one of them may be accessed.

  Memory is sequentially consistent: each access takes effect at once and in program order.
  A configuration is its address; loading allocates an address that is not in use.
\<close>

section \<open>States and steps\<close>

text \<open>
  Where a worker is: at the top of its loop; after reading the pointer for the flag update; in
  the rest of the round, with the configurations it has read.
\<close>

datatype worker_pc = W_top | W_mark nat | W_body "nat set"

text \<open>
  Where the master is: outside; in the loop over the workers with the checked configuration and the
  workers still to do; waiting for one worker.
\<close>

datatype master_pc =
    M_idle
  | M_loop nat "nat list"
  | M_wait nat nat nat nat "nat list"

record reload_state =
  cfg_ptr :: "nat \<Rightarrow> nat option"
  cfg_live :: "nat set"
  cfg_used :: "nat set"
  worker :: "nat \<Rightarrow> worker_pc"
  master :: master_pc

text \<open>The configurations the worker of a core may access next.\<close>

fun held :: "worker_pc \<Rightarrow> nat set" where
  "held W_top = {}"
| "held (W_mark a) = {a}"
| "held (W_body H) = H"

text \<open>
  \<open>cores\<close> is the list of worker cores, in the order of \<open>RTE_LCORE_FOREACH_SLAVE\<close>.
  The steps of the worker of core \<open>c\<close>: read the pointer for the flag, set the flag, read the pointer
  again, end the round.  The steps of the master: load the master configuration (a failure changes
  nothing), load a worker's configuration and swap the pointer, fail to load it, leave
  the wait and free the old configuration, finish.
\<close>

inductive step :: "nat list \<Rightarrow> reload_state \<Rightarrow> reload_state \<Rightarrow> bool" for cores where
  w_read: "c \<in> set cores \<Longrightarrow> worker s c = W_top \<Longrightarrow> cfg_ptr s c = Some a \<Longrightarrow>
    step cores s (s\<lparr>worker := (worker s)(c := W_mark a)\<rparr>)"
| w_mark: "worker s c = W_mark a \<Longrightarrow>
    step cores s (s\<lparr>worker := (worker s)(c := W_body {a}), cfg_used := insert a (cfg_used s)\<rparr>)"
| w_load: "worker s c = W_body H \<Longrightarrow> cfg_ptr s c = Some a \<Longrightarrow>
    step cores s (s\<lparr>worker := (worker s)(c := W_body (insert a H))\<rparr>)"
| w_end: "worker s c = W_body H \<Longrightarrow>
    step cores s (s\<lparr>worker := (worker s)(c := W_top)\<rparr>)"
| m_start: "master s = M_idle \<Longrightarrow> mc \<notin> cfg_live s \<Longrightarrow>
    step cores s (s\<lparr>master := M_loop mc cores, cfg_live := insert mc (cfg_live s),
      cfg_used := cfg_used s - {mc}\<rparr>)"
| m_swap_first: "master s = M_loop mc (c # cs) \<Longrightarrow> cfg_ptr s c = None \<Longrightarrow> new \<notin> cfg_live s \<Longrightarrow>
    step cores s (s\<lparr>cfg_ptr := (cfg_ptr s)(c \<mapsto> new), cfg_live := insert new (cfg_live s),
      cfg_used := cfg_used s - {new}, master := M_loop mc cs\<rparr>)"
| m_swap: "master s = M_loop mc (c # cs) \<Longrightarrow> cfg_ptr s c = Some old \<Longrightarrow> new \<notin> cfg_live s \<Longrightarrow>
    step cores s (s\<lparr>cfg_ptr := (cfg_ptr s)(c \<mapsto> new), cfg_live := insert new (cfg_live s),
      cfg_used := cfg_used s - {new}, master := M_wait mc c old new cs\<rparr>)"
| m_load_fail: "master s = M_loop mc (c # cs) \<Longrightarrow>
    step cores s (s\<lparr>master := M_idle, cfg_live := cfg_live s - {mc}\<rparr>)"
| m_free_old: "master s = M_wait mc c old new cs \<Longrightarrow> new \<in> cfg_used s \<Longrightarrow>
    step cores s (s\<lparr>master := M_loop mc cs, cfg_live := cfg_live s - {old}\<rparr>)"
| m_finish: "master s = M_loop mc [] \<Longrightarrow>
    step cores s (s\<lparr>master := M_idle, cfg_live := cfg_live s - {mc}\<rparr>)"

definition reload_init :: reload_state where
  "reload_init = \<lparr>cfg_ptr = (\<lambda>_. None), cfg_live = {}, cfg_used = {}, worker = (\<lambda>_. W_top), master = M_idle\<rparr>"

definition reachable :: "nat list \<Rightarrow> reload_state \<Rightarrow> bool" where
  "reachable cores s \<longleftrightarrow> (step cores)\<^sup>*\<^sup>* reload_init s"

section \<open>The invariant\<close>

text \<open>The configurations the master is responsible for.\<close>

fun master_held :: "master_pc \<Rightarrow> nat set" where
  "master_held M_idle = {}"
| "master_held (M_loop mc cs) = {mc}"
| "master_held (M_wait mc c old new cs) = {mc, old}"

text \<open>What the worker of a core may hold, as far as the master knows.\<close>

definition may_hold :: "reload_state \<Rightarrow> nat \<Rightarrow> nat set" where
  "may_hold s c = set_option (cfg_ptr s c) \<union>
    (case master s of M_wait mc c' old new cs \<Rightarrow> if c' = c \<and> new \<notin> cfg_used s then {old} else {} | _ \<Rightarrow> {})"

definition reload_inv :: "reload_state \<Rightarrow> bool" where
  "reload_inv s \<longleftrightarrow>
    cfg_live s = ran (cfg_ptr s) \<union> master_held (master s) \<and>
    ran (cfg_ptr s) \<inter> master_held (master s) = {} \<and>
    inj_on (cfg_ptr s) (dom (cfg_ptr s)) \<and>
    (case master s of M_wait mc c old new cs \<Rightarrow> cfg_ptr s c = Some new \<and> mc \<noteq> old | _ \<Rightarrow> True) \<and>
    (\<forall>c. held (worker s c) \<subseteq> may_hold s c)"


lemma reload_inv_init: "reload_inv reload_init"
  by (simp add: reload_inv_def reload_init_def may_hold_def)

lemma may_hold_worker [simp]: "may_hold (s\<lparr>worker := f\<rparr>) = may_hold s"
  by (cases "master s") (simp_all add: may_hold_def fun_eq_iff)

text \<open>A worker step that reads the pointer or ends the round.\<close>

lemma reload_inv_worker:
  assumes inv: "reload_inv s" and h: "held pc \<subseteq> may_hold s c"
  shows "reload_inv (s\<lparr>worker := (worker s)(c := pc)\<rparr>)"
  using assms by (cases "master s") (simp_all add: reload_inv_def)

lemma held_subset: "reload_inv s \<Longrightarrow> held (worker s c) \<subseteq> may_hold s c"
  by (simp add: reload_inv_def)

lemma ptr_may_hold: "cfg_ptr s c = Some a \<Longrightarrow> a \<in> may_hold s c"
  by (simp add: may_hold_def)

lemma reload_inv_mark:
  assumes inv: "reload_inv s" and w: "worker s c = W_mark a"
  shows "reload_inv (s\<lparr>worker := (worker s)(c := W_body {a}), cfg_used := insert a (cfg_used s)\<rparr>)"
    (is "reload_inv ?s")
proof -
  have a: "a \<in> may_hold s c" using held_subset [OF inv, of c] w by simp
  have "held (worker ?s d) \<subseteq> may_hold ?s d" for d
  proof (cases "master s")
    case (M_wait mc c' old new cs)
    then have new: "cfg_ptr s c' = Some new" and inj: "inj_on (cfg_ptr s) (dom (cfg_ptr s))"
      and fresh: "old \<notin> ran (cfg_ptr s)"
      using inv by (auto simp: reload_inv_def)
    have "cfg_ptr s c = Some new" if "a = new"
      using a that new M_wait fresh by (auto simp: may_hold_def ran_def split: if_splits)
    then have "c = c'" if "a = new" using inj_onD [OF inj, of c c'] new that by auto
    then show ?thesis
      using held_subset [OF inv, of d] a M_wait new w
      by (cases "a = new"; cases "d = c") (auto simp: may_hold_def split: if_splits)
  next
    case M_idle
    then show ?thesis using held_subset [OF inv, of d] a by (auto simp: may_hold_def)
  next
    case (M_loop mc cs)
    then show ?thesis using held_subset [OF inv, of d] a by (auto simp: may_hold_def)
  qed
  with inv show ?thesis by (cases "master s") (simp_all add: reload_inv_def)
qed

lemma inj_on_update:
  assumes "inj_on f (dom f)" "new \<notin> ran f"
  shows "inj_on (f(c \<mapsto> new)) (dom (f(c \<mapsto> new)))"
  using assms by (auto simp: inj_on_def dom_def ran_def)

lemma ran_update_inj:
  assumes "inj_on f (dom f)"
  shows "ran (f(c \<mapsto> new)) = insert new (ran f - set_option (f c))"
  using assms by (auto simp: ran_def inj_on_def dom_def)

lemma reload_inv_swap:
  assumes inv: "reload_inv s" and m: "master s = M_loop mc (c # cs)" and old: "cfg_ptr s c = Some old"
    and new: "new \<notin> cfg_live s"
  shows "reload_inv (s\<lparr>cfg_ptr := (cfg_ptr s)(c \<mapsto> new), cfg_live := insert new (cfg_live s),
      cfg_used := cfg_used s - {new}, master := M_wait mc c old new cs\<rparr>)" (is "reload_inv ?s")
proof -
  have f: "cfg_live s = ran (cfg_ptr s) \<union> {mc}" "mc \<notin> ran (cfg_ptr s)"
      "inj_on (cfg_ptr s) (dom (cfg_ptr s))" "\<And>d. held (worker s d) \<subseteq> set_option (cfg_ptr s d)"
    using inv m by (auto simp: reload_inv_def may_hold_def)
  have o: "old \<in> ran (cfg_ptr s)" using old by (rule ranI)
  have "ran (cfg_ptr ?s) = insert new (ran (cfg_ptr s) - {old})" using ran_update_inj [OF f(3), of c new] old by simp
  moreover have "inj_on (cfg_ptr ?s) (dom (cfg_ptr ?s))" using inj_on_update [OF f(3), of new c] new f(1) by simp
  moreover have "held (worker ?s d) \<subseteq> may_hold ?s d" for d
    using f(4) [of d] old by (cases "d = c") (auto simp: may_hold_def)
  ultimately show ?thesis using f o new by (auto simp: reload_inv_def)
qed

lemma reload_inv_step: "step cores s s' \<Longrightarrow> reload_inv s \<Longrightarrow> reload_inv s'"
proof (induction rule: step.induct)
  case (w_read c s a)
  then show ?case by (intro reload_inv_worker) (simp_all add: ptr_may_hold)
next
  case (w_mark s c a)
  then show ?case by (intro reload_inv_mark)
next
  case (w_load s c H a)
  then show ?case using held_subset [OF w_load.prems, of c] by (intro reload_inv_worker) (simp_all add: ptr_may_hold)
next
  case (w_end s c H)
  then show ?case by (intro reload_inv_worker) simp_all
next
  case (m_start s mc)
  then show ?case by (auto simp: reload_inv_def may_hold_def)
next
  case (m_swap_first s mc c cs new)
  then have inj: "inj_on (cfg_ptr s) (dom (cfg_ptr s))" and new: "new \<notin> ran (cfg_ptr s)" by (auto simp: reload_inv_def)
  have "held (worker s d) \<subseteq> set_option (((cfg_ptr s)(c \<mapsto> new)) d)" for d
    using held_subset [OF m_swap_first.prems, of d] m_swap_first.hyps by (cases "d = c") (auto simp: may_hold_def)
  then show ?case
    using m_swap_first inj_on_update [OF inj new, of c] ran_update_inj [OF inj, of c new]
    by (auto simp: reload_inv_def may_hold_def)
next
  case (m_swap s mc c cs old new)
  then show ?case by (intro reload_inv_swap)
next
  case (m_load_fail s mc c cs)
  then show ?case by (auto simp: reload_inv_def may_hold_def)
next
  case (m_free_old s mc c old new cs)
  then show ?case by (auto simp: reload_inv_def may_hold_def split: if_splits)
next
  case (m_finish s mc)
  then show ?case by (auto simp: reload_inv_def may_hold_def)
qed

lemma reachable_inv: "reachable cores s \<Longrightarrow> reload_inv s"
  unfolding reachable_def by (induction rule: rtranclp_induct) (auto intro: reload_inv_init reload_inv_step)


section \<open>Properties\<close>

text \<open>
  C7. No use after free: in every interleaving of the master with any number of workers, through any
  number of reloads, successful or not, every configuration a worker may still access is
  allocated, and the configuration the master is about to free is allocated and held by no worker.
\<close>

theorem reload_no_use_after_free:
  assumes "reachable cores s"
  shows "(\<forall>c. held (worker s c) \<subseteq> cfg_live s) \<and>
    (\<forall>mc c old new cs. master s = M_wait mc c old new cs \<and> new \<in> cfg_used s \<longrightarrow>
       old \<in> cfg_live s \<and> (\<forall>d. old \<notin> held (worker s d)))"
proof -
  have inv: "reload_inv s" by (rule reachable_inv [OF assms])
  then have live: "cfg_live s = ran (cfg_ptr s) \<union> master_held (master s)"
    and dj: "ran (cfg_ptr s) \<inter> master_held (master s) = {}" by (simp_all add: reload_inv_def)
  have "may_hold s c \<subseteq> cfg_live s" for c
    using live by (auto simp: may_hold_def intro: ranI split: master_pc.splits if_splits)
  then have "held (worker s c) \<subseteq> cfg_live s" for c using held_subset [OF inv] by blast
  moreover have "old \<in> cfg_live s \<and> (\<forall>d. old \<notin> held (worker s d))"
    if m: "master s = M_wait mc c old new cs" "new \<in> cfg_used s" for mc c old new cs
  proof -
    have "may_hold s d \<subseteq> ran (cfg_ptr s)" for d using m by (auto simp: may_hold_def intro: ranI)
    then show ?thesis using held_subset [OF inv] live dj m by fastforce
  qed
  ultimately show ?thesis by blast
qed




section \<open>Samples\<close>

text \<open>
  One worker, on core 1: started with configuration 1, it has begun a round when the master reloads
  (configuration 0 for the check, configuration 2 for the worker).
\<close>

definition started :: reload_state where
  "started = \<lparr>cfg_ptr = [1 \<mapsto> 1], cfg_live = {1}, cfg_used = {}, worker = (\<lambda>_. W_top), master = M_idle\<rparr>"

definition waiting :: reload_state where
  "waiting = \<lparr>cfg_ptr = [1 \<mapsto> 2], cfg_live = {0, 1, 2}, cfg_used = {}, worker = (\<lambda>_. W_top),
     master = M_wait 0 1 1 2 []\<rparr>"

lemma reachable_step: "reachable cores s \<Longrightarrow> step cores s s' \<Longrightarrow> reachable cores s'"
  unfolding reachable_def by (rule rtranclp.rtrancl_into_rtrancl)

lemma reachable_started: "reachable [1] started"
proof -
  let ?s1 = "reload_init\<lparr>master := M_loop 0 [1], cfg_live := {0}\<rparr>"
  let ?s2 = "?s1\<lparr>cfg_ptr := [1 \<mapsto> 1], cfg_live := {0, 1}, master := M_loop 0 []\<rparr>"
  have "reachable [1] reload_init" by (simp add: reachable_def)
  moreover have "step [1] reload_init ?s1"
    using step.m_start [of reload_init 0 "[1]"] by (simp add: reload_init_def)
  moreover have "step [1] ?s1 ?s2"
    using step.m_swap_first [of ?s1 0 1 "[]" 1 "[1]"] by (simp add: reload_init_def insert_commute)
  moreover have "step [1] ?s2 started"
    using step.m_finish [of ?s2 0 "[1]"] by (simp add: reload_init_def started_def)
  ultimately show ?thesis by (blast intro: reachable_step)
qed

lemma reachable_waiting: "reachable [1] waiting"
proof -
  let ?s1 = "started\<lparr>master := M_loop 0 [1], cfg_live := {0, 1}\<rparr>"
  have "step [1] started ?s1"
    using step.m_start [of started 0 "[1]"] by (simp add: started_def)
  moreover have "step [1] ?s1 waiting"
    using step.m_swap [of ?s1 0 1 "[]" 1 2 "[1]"] by (simp add: started_def waiting_def insert_commute)
  ultimately show ?thesis using reachable_started by (blast intro: reachable_step)
qed

definition marked :: reload_state where
  "marked = waiting\<lparr>worker := (\<lambda>_. W_top)(1 := W_body {2}), cfg_used := {2}\<rparr>"

lemma reachable_marked: "reachable [1] marked"
proof -
  let ?s1 = "waiting\<lparr>worker := (\<lambda>_. W_top)(1 := W_mark 2)\<rparr>"
  have "step [1] waiting ?s1"
    using step.w_read [of 1 "[1]" waiting 2] by (simp add: waiting_def)
  moreover have "step [1] ?s1 marked"
    using step.w_mark [of ?s1 1 2 "[1]"] by (simp add: marked_def waiting_def)
  ultimately show ?thesis using reachable_waiting by (blast intro: reachable_step)
qed

theorem reload_no_use_after_free_witness:
  "master marked = M_wait 0 1 1 2 [] \<and> 1 \<in> cfg_live marked \<and> 1 \<notin> held (worker marked 1) \<and>
    held (worker marked 1) \<subseteq> cfg_live marked"
  using reload_no_use_after_free [OF reachable_marked]
  by (force simp: marked_def waiting_def)



end
