(* ===== verification/Config.thy ===== *)
theory Config
  imports Parse_Config Reload
begin

text \<open>
  Loading, freeing and reloading configurations, \<open>src/src/config.c\<close>.

  The file system and the generated parser are parameters (\<open>files\<close>): whether a file can be opened,
  and the parse tree of its contents.  Memory is the heap of \<open>Nat_Table\<close>; a configuration
  is a pair of the address of its block and its contents, and owns that block, the blocks of its
  address lists, of its NAT table and of its rules.  The interleavings of a reload with the
  workers are the subject of \<open>Reload\<close>; here a worker is the sequence of values
  the master reads from the flags of its new configuration.
\<close>

section \<open>Freeing a configuration\<close>

fun reset_rules :: "app_config_node \<Rightarrow> heap \<Rightarrow> heap option" where
  "reset_rules Null_node h = Some h"
| "reset_rules (Node root type left right action data) h = do {
     h \<leftarrow> (if left \<noteq> Null_node then reset_rules left h else Some h);
     h \<leftarrow> (if right \<noteq> Null_node then reset_rules right h else Some h);
     h \<leftarrow> rte_free_ptr data h;
     rte_free root h }"

fun free_ip_list :: "port_ip_addr list \<Rightarrow> heap \<Rightarrow> heap option" where
  "free_ip_list [] h = Some h"
| "free_ip_list (ip # next) h = do { h \<leftarrow> rte_free (pia_block ip) h; free_ip_list next h }"

fun free_ports :: "port_config list \<Rightarrow> heap \<Rightarrow> heap option" where
  "free_ports [] h = Some h"
| "free_ports (p # ps) h = do { h \<leftarrow> free_ip_list (ip_addresses p) h; free_ports ps h }"

type_synonym config_ref = "nat \<times> app_config"

fun app_config_free :: "config_ref option \<Rightarrow> heap \<Rightarrow> heap option" where
  "app_config_free None h = Some h"
| "app_config_free (Some (a, config)) h = do {
     h \<leftarrow> free_ports (ports config) h;
     h \<leftarrow> nat_reset_lookup_table (nat_lookup config) h;
     h \<leftarrow> reset_rules (rules config) h;
     rte_free a h }"

section \<open>Loading a configuration\<close>

record files =
  fopen_ok :: "string \<Rightarrow> bool"
  yylex_init_ok :: bool
  parse_of :: "string \<Rightarrow> parse_outcome"

text \<open>The arguments after the program name; \<open>None\<close>: an unknown option, or \<open>-f\<close> without a name.\<close>

fun config_file_arg :: "string list \<Rightarrow> string \<Rightarrow> string option" where
  "config_file_arg [] name = Some name"
| "config_file_arg [arg] name = None"
| "config_file_arg (arg # val # rest) name =
    (if arg = ''-f'' then config_file_arg rest val else None)"

definition default_config_file :: string where
  "default_config_file = ''/etc/natasha.conf''"

definition zero_config :: app_config where
  "zero_config = \<lparr>ports = replicate NATASHA_MAX_ETHPORTS \<lparr>ip_addresses = [], mtu = 0\<rparr>,
     nat_lookup = None, rules = Null_node, flags = 0\<rparr>"

definition app_config_load :: "files \<Rightarrow> string list \<Rightarrow> heap \<Rightarrow> (config_ref option \<times> heap) option" where
  "app_config_load F argv h =
    (case rte_zmalloc h of (None, h) \<Rightarrow> Some (None, h)
     | (Some config, h) \<Rightarrow>
         (case config_file_arg (drop 1 argv) default_config_file of
            None \<Rightarrow> do { h \<leftarrow> rte_free config h; Some (None, h) }
          | Some name \<Rightarrow>
              if \<not> fopen_ok F name then do { h \<leftarrow> rte_free config h; Some (None, h) }
              else if \<not> yylex_init_ok F then do { h \<leftarrow> rte_free config h; Some (None, h) }
              else do {
                (ret, c, h) \<leftarrow> yyparse config (parse_of F name) zero_config h;
                if ret \<noteq> 0 then do { h \<leftarrow> app_config_free (Some (config, c)) h; Some (None, h) }
                else Some (Some (config, c), h) }))"

section \<open>Per-queue statistics\<close>

definition support_per_queue_statistics :: "(u8 \<Rightarrow> string) \<Rightarrow> u8 \<Rightarrow> bool" where
  "support_per_queue_statistics driver_name port \<longleftrightarrow>
    driver_name port \<noteq> ''net_i40e'' \<and> driver_name port \<noteq> ''net_mlx5'' \<and>
    driver_name port \<noteq> ''net_e1000_igb''"

section \<open>Reloading\<close>

text \<open>
  The master's view: its memory, the configuration of every core, and how many times a
  configuration has been loaded (the file is read again for every core, and may have changed).
\<close>

record master_state =
  mem :: heap
  conf :: "nat \<Rightarrow> config_ref option"
  loads :: nat

text \<open>\<open>while (!(new_config->flags & NAT_FLAG_USED)) continue;\<close> the values read are \<open>reads 0\<close>, \<open>reads 1\<close>, ...\<close>

partial_function (option) wait_used :: "(nat \<Rightarrow> u32) \<Rightarrow> nat \<Rightarrow> nat option" where
  "wait_used reads k = (if reads k AND NAT_FLAG_USED \<noteq> 0 then Some k else wait_used reads (Suc k))"

fun reload_cores ::
  "(nat \<Rightarrow> files) \<Rightarrow> (nat \<Rightarrow> nat \<Rightarrow> u32) \<Rightarrow> string list \<Rightarrow> config_ref \<Rightarrow> nat list \<Rightarrow> master_state \<Rightarrow>
    (int \<times> master_state) option" where
  "reload_cores F reads argv master_config [] s = do {
     h \<leftarrow> app_config_free (Some master_config) (mem s);
     Some (0, s\<lparr>mem := h\<rparr>) }"
| "reload_cores F reads argv master_config (core # cores) s = do {
     (new_config, h) \<leftarrow> app_config_load (F (loads s)) argv (mem s);
     let s = s\<lparr>mem := h, loads := Suc (loads s)\<rparr>;
     case new_config of
       None \<Rightarrow> do {
         h \<leftarrow> app_config_free (Some master_config) (mem s);
         Some (- 1, s\<lparr>mem := h\<rparr>) }
     | Some new \<Rightarrow> do {
         let old_config = conf s core;
         let s = s\<lparr>conf := (conf s)(core \<mapsto> new)\<rparr>;
         if old_config = None then reload_cores F reads argv master_config cores s
         else do {
           _ \<leftarrow> wait_used (reads core) 0;
           h \<leftarrow> app_config_free old_config (mem s);
           reload_cores F reads argv master_config cores (s\<lparr>mem := h\<rparr>) } } }"

definition app_config_reload_all ::
  "(nat \<Rightarrow> files) \<Rightarrow> (nat \<Rightarrow> nat \<Rightarrow> u32) \<Rightarrow> nat list \<Rightarrow> string list \<Rightarrow> master_state \<Rightarrow>
    (int \<times> master_state) option" where
  "app_config_reload_all F reads slaves argv s = do {
     (master_config, h) \<leftarrow> app_config_load (F (loads s)) argv (mem s);
     let s = s\<lparr>mem := h, loads := Suc (loads s)\<rparr>;
     case master_config of
       None \<Rightarrow> Some (- 1, s)
     | Some master_config \<Rightarrow> reload_cores F reads argv master_config slaves s }"

section \<open>What a configuration owns\<close>

definition port_blocks :: "app_config \<Rightarrow> nat list" where
  "port_blocks c = concat (map (\<lambda>p. map pia_block (ip_addresses p)) (ports c))"

definition all_blocks :: "app_config \<Rightarrow> nat set" where
  "all_blocks c = set (port_blocks c) \<union> set (tree_blocks (rules c)) \<union> ran (block_at (nat_lookup c))"

definition owned :: "app_config \<Rightarrow> heap \<Rightarrow> bool" where
  "owned c h \<longleftrightarrow> length (ports c) = 2 \<and> table_ok (nat_lookup c) h \<and>
     distinct (port_blocks c @ tree_blocks (rules c)) \<and>
     set (port_blocks c @ tree_blocks (rules c)) \<subseteq> live h - ran (block_at (nat_lookup c))"

fun foot :: "config_ref \<Rightarrow> nat set" where
  "foot (a, c) = insert a (all_blocks c)"

fun config_live :: "config_ref \<Rightarrow> heap \<Rightarrow> bool" where
  "config_live (a, c) h \<longleftrightarrow> owned c h \<and> a \<in> live h - all_blocks c"

lemma free_ptrs_Nil: "free_ptrs [] = Some"
  by (rule ext) simp

lemma free_ptrs_single: "free_ptrs [Some a] = rte_free a"
  by (rule ext) (simp add: rte_free_ptr_def free_ptrs_Nil)

lemma reset_rules_ptrs: "reset_rules t h = free_ptrs (map Some (tree_blocks t)) h"
proof (induction t arbitrary: h)
  case (Node root type left right action data)
  have sub: "(if t \<noteq> Null_node then reset_rules t h else Some h) = reset_rules t h" for t h
    by simp
  show ?case
    unfolding reset_rules.simps sub Node.IH
    by (cases data) (simp_all add: free_ptrs_append rte_free_ptr_def free_ptrs_Nil free_ptrs_single)
qed simp

lemma free_ip_list_ptrs: "free_ip_list ips h = free_ptrs (map (Some \<circ> pia_block) ips) h"
  by (induction ips arbitrary: h) (auto simp: rte_free_ptr_def intro!: Option.bind_cong)

lemma free_ports_ptrs:
  "free_ports ps h = free_ptrs (map Some (concat (map (\<lambda>p. map pia_block (ip_addresses p)) ps))) h"
  by (induction ps arbitrary: h) (auto simp: free_ptrs_append free_ip_list_ptrs intro!: Option.bind_cong)

lemma somes_Some [simp]: "somes (map Some xs) = xs"
  by (induction xs) simp_all

lemma free_blocks:
  "distinct bs \<Longrightarrow> set bs \<subseteq> live h \<Longrightarrow> free_ptrs (map Some bs) h = Some (h\<lparr>live := live h - set bs\<rparr>)"
  using free_ptrs_distinct [of "map Some bs" h] by simp

text \<open>Freeing a live configuration frees each of its blocks once and nothing else.\<close>

lemma app_config_free_live:
  assumes "config_live x h"
  shows "app_config_free (Some x) h = Some (h\<lparr>live := live h - foot x\<rparr>)"
proof -
  obtain a c where x: "x = (a, c)" by (cases x)
  let ?P = "set (port_blocks c)" and ?T = "set (tree_blocks (rules c))"
    and ?N = "ran (block_at (nat_lookup c))"
  have o: "owned c h" and a: "a \<in> live h" "a \<notin> ?P \<union> ?T \<union> ?N"
    using assms by (auto simp: x all_blocks_def)
  define h1 where "h1 = h\<lparr>live := live h - ?P\<rparr>"
  define h2 where "h2 = h1\<lparr>live := live h1 - ?N\<rparr>"
  define h3 where "h3 = h2\<lparr>live := live h2 - ?T\<rparr>"
  have 1: "free_ports (ports c) h = Some h1"
    using o free_blocks [of "port_blocks c" h] unfolding h1_def free_ports_ptrs port_blocks_def [symmetric]
    by (auto simp: owned_def)
  have "table_ok (nat_lookup c) h1"
    using o by (auto simp: owned_def table_ok_def heap_ok_def h1_def)
  then have 2: "nat_reset_lookup_table (nat_lookup c) h1 = Some h2"
    by (simp add: h2_def nat_reset_ok)
  have 3: "reset_rules (rules c) h2 = Some h3"
    using o free_blocks [of "tree_blocks (rules c)" h2] unfolding h3_def reset_rules_ptrs
    by (auto simp: owned_def h2_def h1_def)
  have "rte_free a h3 = Some (h3\<lparr>live := live h3 - {a}\<rparr>)"
    using a by (simp add: rte_free_def h3_def h2_def h1_def)
  moreover have "live h3 - {a} = live h - foot x"
    by (auto simp: x h3_def h2_def h1_def all_blocks_def)
  ultimately show ?thesis
    by (simp add: x 1 2 3 all_blocks_def) (simp add: h3_def h2_def h1_def)
qed

declare app_config_free.simps(2) [simp del]

section \<open>Parsing keeps the configuration owned\<close>

text \<open>The live blocks that do not belong to the configuration.\<close>

definition loose :: "app_config \<Rightarrow> heap \<Rightarrow> nat set" where
  "loose c h = live h - all_blocks c"

text \<open>
  A successful step of the parser: the configuration stays owned, memory stays available, and the
  blocks in \<open>L\<close> are lost.
\<close>

definition keeps :: "app_config \<Rightarrow> heap \<Rightarrow> nat set \<Rightarrow> app_config \<Rightarrow> heap \<Rightarrow> bool" where
  "keeps c h L c' h' \<longleftrightarrow> owned c' h' \<and> (\<forall>n. alloc_ok h' n) \<and> loose c' h' = loose c h \<union> L"

lemma table_ok_built:
  assumes "table_ok t h" "built h bs h'"
  shows "table_ok t h'" "set bs \<inter> ran (block_at t) = {}"
  using assms built_heap_ok [OF assms(2)] built_fresh [OF assms(2)]
  by (auto simp: table_ok_def built_def)

lemma owned_heap_ok: "owned c h \<Longrightarrow> heap_ok h"
  by (simp add: owned_def table_ok_def)

lemma new_port_ip_ok:
  assumes "\<forall>n. alloc_ok h n"
  shows "\<exists>ip h'. new_port_ip v a h = (Some ip, h') \<and> built h [pia_block ip] h' \<and> pia_ip ip = a \<and>
    pia_vlan ip = of_int (opt_vlan v)"
  using assms by (auto simp: new_port_ip_def and_then_def done_with_def rte_zmalloc_ok built_def)

lemma extra_ips_ok:
  "\<forall>n. alloc_ok h n \<Longrightarrow>
    \<exists>ips h'. config_port_extra_ips xs h = (Some ips, h') \<and> built h (map pia_block ips) h' \<and>
      map (\<lambda>ip. (pia_vlan ip, pia_ip ip)) ips = map (\<lambda>(v, a). (of_int (opt_vlan v), a)) xs"
proof (induction xs arbitrary: h)
  case (Cons x xs)
  obtain v a where x: "x = (v, a)" by (cases x)
  obtain ips h1 where 1: "config_port_extra_ips xs h = (Some ips, h1)" "built h (map pia_block ips) h1"
    "map (\<lambda>ip. (pia_vlan ip, pia_ip ip)) ips = map (\<lambda>(v, a). (of_int (opt_vlan v), a)) xs"
    using Cons by blast
  then have "\<forall>n. alloc_ok h1 n" using Cons.prems by (simp add: built_def)
  then obtain ip h2 where 2: "new_port_ip v a h1 = (Some ip, h2)" "built h1 [pia_block ip] h2"
    "pia_ip ip = a" "pia_vlan ip = of_int (opt_vlan v)"
    using new_port_ip_ok by blast
  have "built h (map pia_block (ip # ips)) h2"
    by (rule built_perm [OF built_trans [OF 1(2) 2(2)]]) simp
  with 1 2 show ?case by (simp add: x and_then_def done_with_def)
qed (simp add: done_with_def)

lemma two_ports: "length ps = 2 \<Longrightarrow> \<exists>p q. ps = [p, q]"
  by (metis length_0_conv length_Suc_conv numeral_2_eq_2)

text \<open>Replacing the addresses of a port by new blocks loses the old ones.\<close>

lemma keeps_port:
  assumes own: "owned c h" and al: "\<forall>n. alloc_ok h n" and b: "built h (map pia_block ips) h'"
    and i: "i < 2"
  shows "keeps c h (set (map pia_block (ip_addresses (ports c ! i))))
    (c\<lparr>ports := (ports c)[i := \<lparr>ip_addresses = ips, mtu = m\<rparr>]\<rparr>) h'" (is "keeps c h _ ?c h'")
proof -
  obtain p q where pq: "ports c = [p, q]" using own two_ports [of "ports c"] by (auto simp: owned_def)
  define P Q B where PQB: "P = map pia_block (ip_addresses p)" "Q = map pia_block (ip_addresses q)"
    "B = map pia_block ips"
  have pb: "port_blocks c = P @ Q" by (simp add: port_blocks_def pq PQB)
  have fresh: "set B \<inter> live h = {}" "distinct B" "live h' = live h \<union> set B" "\<forall>n. alloc_ok h' n"
    using b al built_fresh [OF b owned_heap_ok [OF own]] by (simp_all add: built_def PQB)
  have t: "table_ok (nat_lookup c) h'" "set B \<inter> ran (block_at (nat_lookup c)) = {}"
    using table_ok_built [OF _ b] own by (simp_all add: owned_def PQB)
  consider "port_blocks ?c = B @ Q" "map pia_block (ip_addresses (ports c ! i)) = P"
    | "port_blocks ?c = P @ B" "map pia_block (ip_addresses (ports c ! i)) = Q"
    using i by (cases i) (auto simp: port_blocks_def pq PQB less_Suc_eq)
  then show ?thesis
    using own fresh t by cases (auto simp: keeps_def owned_def loose_def all_blocks_def pb)
qed

lemma port_blocks_update [simp]:
  "port_blocks (c\<lparr>rules := t\<rparr>) = port_blocks c" "port_blocks (c\<lparr>nat_lookup := n\<rparr>) = port_blocks c"
  by (simp_all add: port_blocks_def)

lemma keeps_rules:
  assumes own: "owned c h" and al: "\<forall>n. alloc_ok h n" and b: "built h (tree_blocks t) h'"
  shows "keeps c h (set (tree_blocks (rules c))) (c\<lparr>rules := t\<rparr>) h'"
proof -
  have "set (tree_blocks t) \<inter> live h = {}" "distinct (tree_blocks t)"
    "live h' = live h \<union> set (tree_blocks t)" "\<forall>n. alloc_ok h' n"
    using b al built_fresh [OF b owned_heap_ok [OF own]] by (simp_all add: built_def)
  then show ?thesis
    using own table_ok_built [OF _ b, of "nat_lookup c"]
    by (auto simp: keeps_def owned_def loose_def all_blocks_def)
qed

lemma keeps_table:
  assumes own: "owned c h" and al: "\<forall>n. alloc_ok h n"
  shows "\<exists>c' h'. config_nat_rule cfg a b c h = Some (0, c', h') \<and> keeps c h {} c' h' \<and>
    ports c' = ports c \<and> rules c' = rules c"
proof -
  have inv: "tbl_invar (nat_lookup c, h)" using own al by (simp add: tbl_invar_def owned_def)
  obtain t h' where th: "nat_tbl.add_pair (a, b) (nat_lookup c, h) = (t, h')" by fastforce
  have "add_rules_to_table (Suc cfg) (nat_lookup c) a b h = Some (0, t, h')"
    using add_rules_built [of "Suc cfg", OF _ inv, of a b] th by simp
  moreover have "table_ok t h'" "\<forall>n. alloc_ok h' n"
    using nat_tbl.invar_add_pair [OF inv, of "(a, b)"] th by (simp_all add: tbl_invar_def)
  moreover have l: "live h' - ran (block_at t) = live h - ran (block_at (nat_lookup c))"
    using live_add_pairs [OF inv, of "[(a, b)]"] th by simp
  moreover have "live h' - (A \<union> ran (block_at t)) = live h - (A \<union> ran (block_at (nat_lookup c)))" for A
    using arg_cong [OF l, of "\<lambda>B. B - A"] by (simp add: set_diff_eq) blast
  ultimately show ?thesis
    using own by (simp add: config_nat_rule_def keeps_def owned_def loose_def all_blocks_def)
qed

lemma keeps_port_line:
  assumes own: "owned c h" and al: "\<forall>n. alloc_ok h n" and n: "0 \<le> n" "n < 2"
  shows "\<exists>c' h'. config_port n m v ip xs c h = Some (0, c', h') \<and>
    keeps c h (set (map pia_block (ip_addresses (ports c ! nat n)))) c' h' \<and>
    rules c' = rules c \<and> (\<forall>j. j \<noteq> nat n \<longrightarrow> ports c' ! j = ports c ! j)"
proof -
  obtain ips h1 where 1: "config_port_extra_ips xs h = (Some ips, h1)" "built h (map pia_block ips) h1"
    using extra_ips_ok [OF al] by blast
  have "\<forall>n. alloc_ok h1 n" using al 1 by (simp add: built_def)
  then obtain a h2 where 2: "new_port_ip v ip h1 = (Some a, h2)" "built h1 [pia_block a] h2"
    using new_port_ip_ok by blast
  have b: "built h (map pia_block (a # ips)) h2"
    by (rule built_perm [OF built_trans [OF 1(2) 2(2)]]) simp
  have i: "nat n < 2" using n by simp
  from keeps_port [OF own al b i, of "opt_mtu m"] show ?thesis
    using 1 2 n i own
    by (intro exI [of _ "c\<lparr>ports := (ports c)[nat n := \<lparr>ip_addresses = a # ips, mtu = opt_mtu m\<rparr>]\<rparr>"]
        exI [of _ h2]) (simp add: config_port_def RTE_MAX_ETHPORTS_def owned_def)
qed

lemma keeps_trans: "keeps c h L c1 h1 \<Longrightarrow> keeps c1 h1 L' c2 h2 \<Longrightarrow> keeps c h (L \<union> L') c2 h2"
  by (auto simp: keeps_def)

lemma keeps_owned: "keeps c h L c' h' \<Longrightarrow> owned c' h'" "keeps c h L c' h' \<Longrightarrow> \<forall>n. alloc_ok h' n"
  by (simp_all add: keeps_def)

text \<open>The ports a file configures, and its rules sections.\<close>

fun line_ports :: "config_line \<Rightarrow> int list" where
  "line_ports (L_port n m v ip extra) = [n]"
| "line_ports _ = []"

fun item_ports :: "config_item \<Rightarrow> int list" where
  "item_ports (Config_section ls) = concat (map line_ports ls)"
| "item_ports (Rules_section ss) = []"

fun item_rules :: "config_item \<Rightarrow> stmt list list" where
  "item_rules (Config_section ls) = []"
| "item_rules (Rules_section ss) = [ss]"

definition file_ports :: "config_item list \<Rightarrow> int list" where
  "file_ports items = concat (map item_ports items)"

definition file_rules :: "config_item list \<Rightarrow> stmt list list" where
  "file_rules items = concat (map item_rules items)"

text \<open>Port numbers that index the array; every port configured once and at most one rules section.\<close>

definition in_range :: "int list \<Rightarrow> bool" where
  "in_range ns \<longleftrightarrow> (\<forall>n \<in> set ns. 0 \<le> n \<and> n < 2)"

definition tidy :: "config_item list \<Rightarrow> bool" where
  "tidy items \<longleftrightarrow> distinct (file_ports items) \<and> length (file_rules items) \<le> 1"

definition unset :: "app_config \<Rightarrow> int list \<Rightarrow> bool" where
  "unset c ns \<longleftrightarrow> (\<forall>n \<in> set ns. ip_addresses (ports c ! nat n) = [])"

lemma in_range_append [simp]: "in_range (as @ bs) \<longleftrightarrow> in_range as \<and> in_range bs"
  by (auto simp: in_range_def)

lemma unset_append [simp]: "unset c (as @ bs) \<longleftrightarrow> unset c as \<and> unset c bs"
  by (auto simp: unset_def)

lemma unset_other:
  assumes "unset c ns" "in_range ns" "in_range ms" "set ns \<inter> set ms = {}"
    and "\<And>j. j \<notin> nat ` set ms \<Longrightarrow> ports c' ! j = ports c ! j"
  shows "unset c' ns"
proof (unfold unset_def, intro ballI)
  fix n assume n: "n \<in> set ns"
  have "nat n \<notin> nat ` set ms"
  proof
    assume "nat n \<in> nat ` set ms"
    then obtain m where m: "m \<in> set ms" "nat n = nat m" by blast
    with assms(2,3) n have "n = m" by (metis in_range_def eq_nat_nat_iff)
    with m n assms(4) show False by blast
  qed
  with assms(1,5) n show "ip_addresses (ports c' ! nat n) = []" by (simp add: unset_def)
qed

text \<open>A line of a \<open>config\<close> section.\<close>

lemma keeps_line:
  assumes "owned c h" "\<forall>n. alloc_ok h n" "in_range (line_ports l)"
  shows "\<exists>L c' h'. config_line_action cfg l c h = Some (0, c', h') \<and> keeps c h L c' h' \<and>
    rules c' = rules c \<and> (\<forall>j. j \<notin> nat ` set (line_ports l) \<longrightarrow> ports c' ! j = ports c ! j) \<and>
    (unset c (line_ports l) \<longrightarrow> L = {})"
proof (cases l)
  case L_empty
  with assms show ?thesis by (auto simp: keeps_def)
next
  case (L_port n m v ip xs)
  then have n: "0 \<le> n" "n < 2" using assms(3) by (auto simp: in_range_def)
  obtain c' h' where "config_port n m v ip xs c h = Some (0, c', h')"
    "keeps c h (set (map pia_block (ip_addresses (ports c ! nat n)))) c' h'"
    "rules c' = rules c" "\<forall>j. j \<noteq> nat n \<longrightarrow> ports c' ! j = ports c ! j"
    using keeps_port_line [OF assms(1,2) n] by blast
  with L_port show ?thesis
    by (intro exI [of _ "set (map pia_block (ip_addresses (ports c ! nat n)))"] exI [of _ c'] exI [of _ h'])
      (auto simp: unset_def)
next
  case (L_nat_rule a b)
  with keeps_table [OF assms(1,2), of cfg a b] show ?thesis by auto
qed

lemma keeps_lines:
  "owned c h \<Longrightarrow> \<forall>n. alloc_ok h n \<Longrightarrow> in_range (concat (map line_ports ls)) \<Longrightarrow>
   \<exists>L c' h'. config_lines cfg ls c h = Some (0, c', h') \<and> keeps c h L c' h' \<and>
    rules c' = rules c \<and> (\<forall>j. j \<notin> nat ` set (concat (map line_ports ls)) \<longrightarrow> ports c' ! j = ports c ! j) \<and>
    (unset c (concat (map line_ports ls)) \<and> distinct (concat (map line_ports ls)) \<longrightarrow> L = {})"
proof (induction ls arbitrary: c h)
  case Nil
  then show ?case by (auto simp: keeps_def)
next
  case (Cons l ls)
  let ?ns = "concat (map line_ports ls)"
  have r: "in_range (line_ports l)" "in_range ?ns" using Cons.prems(3) by simp_all
  obtain L c1 h1 where 1: "config_line_action cfg l c h = Some (0, c1, h1)" "keeps c h L c1 h1"
    "rules c1 = rules c" "\<And>j. j \<notin> nat ` set (line_ports l) \<Longrightarrow> ports c1 ! j = ports c ! j"
    "unset c (line_ports l) \<Longrightarrow> L = {}"
    using keeps_line [OF Cons.prems(1,2) r(1)] by blast
  obtain L' c2 h2 where 2: "config_lines cfg ls c1 h1 = Some (0, c2, h2)" "keeps c1 h1 L' c2 h2"
    "rules c2 = rules c1" "\<And>j. j \<notin> nat ` set ?ns \<Longrightarrow> ports c2 ! j = ports c1 ! j"
    "unset c1 ?ns \<Longrightarrow> distinct ?ns \<Longrightarrow> L' = {}"
    using Cons.IH [OF keeps_owned [OF 1(2)] r(2)] by blast
  have "unset c1 ?ns" if "unset c ?ns" "set (line_ports l) \<inter> set ?ns = {}"
    by (rule unset_other [OF that(1) r(2,1) _ 1(4)]) (use that(2) in blast)
  then have L: "L \<union> L' = {}" if "unset c (line_ports l @ ?ns)" "distinct (line_ports l @ ?ns)"
    using that 1(5) 2(5) by auto
  have "ports c2 ! j = ports c ! j" if "j \<notin> nat ` set (line_ports l @ ?ns)" for j
    using that 1(4) [of j] 2(4) [of j] by (simp add: image_Un)
  with 1 2 keeps_trans [OF 1(2) 2(2)] L show ?case
    by (intro exI [of _ "L \<union> L'"] exI [of _ c2] exI [of _ h2]) simp
qed

lemma keeps_rules_section:
  assumes "owned c h" "\<forall>n. alloc_ok h n"
  shows "\<exists>t c' h'. rules_section ss c h = Some (0, c', h') \<and> keeps c h (set (tree_blocks (rules c))) c' h' \<and>
    ports c' = ports c \<and> rules_content Null_node ss h = (Some t, h') \<and> rules c' = t"
proof -
  obtain t h' where t: "rules_content Null_node ss h = (Some t, h')"
    using stmts_total(3) [OF assms(2), of Null_node ss] by (auto simp: total_def)
  with keeps_rules [OF assms rules_built [OF t]] show ?thesis by (simp add: rules_section_def)
qed

lemma file_simps [simp]:
  "file_ports [] = []" "file_ports (i # is) = item_ports i @ file_ports is"
  "file_rules [] = []" "file_rules (i # is) = item_rules i @ file_rules is"
  by (simp_all add: file_ports_def file_rules_def)

lemma unset_same: "ports c' = ports c \<Longrightarrow> unset c' ns = unset c ns"
  by (simp add: unset_def)

text \<open>
  A whole file: parsing succeeds, the configuration owns what was allocated for it, and nothing is
  lost if every port and the rules are configured once.
\<close>

lemma keeps_file:
  "owned c h \<Longrightarrow> \<forall>n. alloc_ok h n \<Longrightarrow> in_range (file_ports items) \<Longrightarrow>
   \<exists>L c' h'. config_file cfg items c h = Some (0, c', h') \<and> keeps c h L c' h' \<and>
     (tidy items \<and> unset c (file_ports items) \<and> (file_rules items = [] \<or> rules c = Null_node) \<longrightarrow> L = {})"
proof (induction items arbitrary: c h)
  case Nil
  then show ?case by (auto simp: keeps_def)
next
  case (Cons item items)
  have r: "in_range (item_ports item)" "in_range (file_ports items)" using Cons.prems(3) by simp_all
  show ?case
  proof (cases item)
    case (Config_section ls)
    obtain L c1 h1 where 1: "config_lines cfg ls c h = Some (0, c1, h1)" "keeps c h L c1 h1"
      "rules c1 = rules c" "\<And>j. j \<notin> nat ` set (item_ports item) \<Longrightarrow> ports c1 ! j = ports c ! j"
      "unset c (item_ports item) \<Longrightarrow> distinct (item_ports item) \<Longrightarrow> L = {}"
      using keeps_lines [OF Cons.prems(1,2), of ls cfg] r Config_section by auto
    obtain L' c2 h2 where 2: "config_file cfg items c1 h1 = Some (0, c2, h2)" "keeps c1 h1 L' c2 h2"
      "tidy items \<Longrightarrow> unset c1 (file_ports items) \<Longrightarrow> file_rules items = [] \<or> rules c1 = Null_node \<Longrightarrow> L' = {}"
      using Cons.IH [OF keeps_owned [OF 1(2)] r(2)] by blast
    have "unset c1 (file_ports items)" if "unset c (file_ports items)"
      "set (item_ports item) \<inter> set (file_ports items) = {}"
      by (rule unset_other [OF that(1) r(2,1) _ 1(4)]) (use that(2) in blast)
    with 1(3,5) 2(3) Config_section have "L \<union> L' = {}"
      if "tidy (item # items)" "unset c (file_ports (item # items))"
        "file_rules (item # items) = [] \<or> rules c = Null_node"
      using that by (auto simp: tidy_def)
    with 1(1) 2(1) keeps_trans [OF 1(2) 2(2)] Config_section show ?thesis
      by (intro exI [of _ "L \<union> L'"] exI [of _ c2] exI [of _ h2]) simp
  next
    case (Rules_section ss)
    obtain c1 h1 where 1: "rules_section ss c h = Some (0, c1, h1)"
      "keeps c h (set (tree_blocks (rules c))) c1 h1" "ports c1 = ports c"
      using keeps_rules_section [OF Cons.prems(1,2)] by blast
    obtain L' c2 h2 where 2: "config_file cfg items c1 h1 = Some (0, c2, h2)" "keeps c1 h1 L' c2 h2"
      "tidy items \<Longrightarrow> unset c1 (file_ports items) \<Longrightarrow> file_rules items = [] \<or> rules c1 = Null_node \<Longrightarrow> L' = {}"
      using Cons.IH [OF keeps_owned [OF 1(2)] r(2)] by blast
    have "set (tree_blocks (rules c)) \<union> L' = {}"
      if "tidy (item # items)" "unset c (file_ports (item # items))"
        "file_rules (item # items) = [] \<or> rules c = Null_node"
      using that 2(3) unset_same [OF 1(3)] Rules_section by (auto simp: tidy_def)
    with 1(1) 2(1) keeps_trans [OF 1(2) 2(2)] Rules_section show ?thesis
      by (intro exI [of _ "set (tree_blocks (rules c)) \<union> L'"] exI [of _ c2] exI [of _ h2]) simp
  qed
qed

section \<open>Loading\<close>

text \<open>The file is found and starts to be parsed.\<close>

definition readable :: "files \<Rightarrow> string list \<Rightarrow> string \<Rightarrow> bool" where
  "readable F argv name \<longleftrightarrow> config_file_arg (drop 1 argv) default_config_file = Some name \<and>
     fopen_ok F name \<and> yylex_init_ok F"

text \<open>The contents of a configuration are those of a parsed file.\<close>

definition parsed :: "config_item list \<Rightarrow> config_ref \<Rightarrow> bool" where
  "parsed items x \<longleftrightarrow> (\<exists>h h'. config_file (fst x) items zero_config h = Some (0, snd x, h'))"

lemma owned_subset: "owned c h \<Longrightarrow> all_blocks c \<subseteq> live h"
  by (auto simp: owned_def all_blocks_def table_ok_def)

lemma config_live_foot: "config_live x h \<Longrightarrow> foot x \<subseteq> live h"
  by (cases x) (auto dest: owned_subset)

lemma config_live_frame:
  assumes "config_live x h" "foot x \<subseteq> live h'" "heap_ok h'"
  shows "config_live x h'"
proof -
  obtain a c where x: "x = (a, c)" by (cases x)
  have "all_blocks c \<subseteq> live h'" using assms(2) by (simp add: x)
  then have "owned c h'"
    using assms(1,3) by (auto simp: x owned_def all_blocks_def table_ok_def)
  with assms show ?thesis by (auto simp: x)
qed

lemma zero_config_blocks [simp]: "all_blocks zero_config = {}"
  by (simp add: zero_config_def all_blocks_def port_blocks_def)

lemma zero_config_owned: "heap_ok h \<Longrightarrow> owned zero_config h"
  by (simp add: owned_def zero_config_def port_blocks_def)

lemma zero_config_unset: "in_range ns \<Longrightarrow> unset zero_config ns"
  by (auto simp: unset_def in_range_def zero_config_def)

text \<open>The sections of the file, accepted or not, on the new configuration.\<close>

lemma load_sections:
  assumes "heap_ok h" "\<forall>n. alloc_ok h n" "in_range (file_ports items)"
  shows "\<exists>a h1 c h2. rte_zmalloc h = (Some a, h1) \<and>
    config_file a items zero_config h1 = Some (0, c, h2) \<and> config_live (a, c) h2 \<and>
    heap_ok h2 \<and> (\<forall>n. alloc_ok h2 n) \<and> live h \<union> foot (a, c) \<subseteq> live h2 \<and> foot (a, c) \<inter> live h = {} \<and>
    (tidy items \<longrightarrow> live h2 = live h \<union> foot (a, c))"
proof -
  define a h1 where "a = next_addr h" and "h1 = h\<lparr>next_addr := Suc a, live := insert a (live h)\<rparr>"
  have z: "rte_zmalloc h = (Some a, h1)" using assms(2) by (simp add: rte_zmalloc_ok a_def h1_def)
  have h1: "heap_ok h1" "\<forall>n. alloc_ok h1 n" "a \<notin> live h" "live h1 = insert a (live h)"
    using assms(1,2) by (auto simp: heap_ok_def a_def h1_def)
  obtain L c h2 where 2: "config_file a items zero_config h1 = Some (0, c, h2)"
    "keeps zero_config h1 L c h2" "tidy items \<Longrightarrow> L = {}"
    using keeps_file [OF zero_config_owned [OF h1(1)] h1(2) assms(3), of a] zero_config_unset [OF assms(3)]
    by (auto simp: zero_config_def)
  have o: "owned c h2" "\<forall>n. alloc_ok h2 n" and l: "live h2 - all_blocks c = insert a (live h) \<union> L"
    using 2(2) h1(4) by (simp_all add: keeps_def loose_def)
  have "live h2 = live h \<union> foot (a, c) \<union> L" using l owned_subset [OF o(1)] by auto
  moreover have "foot (a, c) \<inter> live h = {}" using l h1(3) by auto
  ultimately show ?thesis
    using z 2(1,3) o owned_heap_ok [OF o(1)] l by (intro exI [of _ a] exI [of _ h1] exI [of _ c] exI [of _ h2]) auto
qed

lemma load_accepted:
  assumes "heap_ok h" "\<forall>n. alloc_ok h n" "readable F argv name" "parse_of F name = Accepted items"
    and "in_range (file_ports items)"
  shows "\<exists>x h'. app_config_load F argv h = Some (Some x, h') \<and> config_live x h' \<and> parsed items x \<and>
    heap_ok h' \<and> (\<forall>n. alloc_ok h' n) \<and> live h \<union> foot x \<subseteq> live h' \<and> foot x \<inter> live h = {} \<and>
    (tidy items \<longrightarrow> live h' = live h \<union> foot x)"
proof -
  from load_sections [OF assms(1,2,5)] obtain a h1 c h2 where *: "rte_zmalloc h = (Some a, h1)"
    "config_file a items zero_config h1 = Some (0, c, h2)" "config_live (a, c) h2"
    "heap_ok h2" "\<forall>n. alloc_ok h2 n" "live h \<union> foot (a, c) \<subseteq> live h2" "foot (a, c) \<inter> live h = {}"
    "tidy items \<longrightarrow> live h2 = live h \<union> foot (a, c)"
    by blast
  have "app_config_load F argv h = Some (Some (a, c), h2)"
    using *(1,2) assms(3,4) by (simp add: app_config_load_def readable_def)
  moreover have "parsed items (a, c)" using *(2) by (auto simp: parsed_def)
  ultimately show ?thesis using *(3-8) by blast
qed

text \<open>How many blocks the parser allocates for unfinished parts of the file.\<close>

fun cond_blocks :: "cond_expr \<Rightarrow> nat" where
  "cond_blocks (E_and a b) = cond_blocks a + cond_blocks b + 1"
| "cond_blocks (E_or a b) = cond_blocks a + cond_blocks b + 1"
| "cond_blocks (E_paren c) = cond_blocks c"
| "cond_blocks _ = 2"

fun stmt_blocks :: "stmt \<Rightarrow> nat"
  and else_blocks :: "stmt list option \<Rightarrow> nat"
  and content_blocks :: "bool \<Rightarrow> stmt list \<Rightarrow> nat" where
  "stmt_blocks St_empty = 0"
| "stmt_blocks (St_if what body els) = cond_blocks what + content_blocks False body + else_blocks els + 2"
| "stmt_blocks (St_nat_rewrite field) = 2"
| "stmt_blocks (St_out oport mac vlan) = 2"
| "stmt_blocks St_print = 1"
| "stmt_blocks St_drop = 1"
| "else_blocks None = 0"
| "else_blocks (Some body) = content_blocks False body"
| "content_blocks some [] = 0"
| "content_blocks some (s # ss) = stmt_blocks s + (if some \<and> s \<noteq> St_empty then 1 else 0) +
    content_blocks (some \<or> s \<noteq> St_empty) ss"

fun pending_blocks :: "pending \<Rightarrow> nat" where
  "pending_blocks (P_cond c) = cond_blocks c"
| "pending_blocks (P_content ss) = content_blocks False ss"
| "pending_blocks (P_extra_ips xs) = length xs"

lemma length_cond: "cond c h = (Some t, h') \<Longrightarrow> length (tree_blocks t) = cond_blocks c"
  by (induction c arbitrary: h t h') (auto simp: build_simps inner_node_def data_action_def)

lemma length_stmts:
  "rules_stmt s h = (Some t, h') \<Longrightarrow> length (tree_blocks t) = stmt_blocks s \<and> (t = Null_node \<longleftrightarrow> s = St_empty)"
  "opt_else e h = (Some t, h') \<Longrightarrow> length (tree_blocks t) = else_blocks e"
  "rules_content prev ss h = (Some t, h') \<Longrightarrow>
    length (tree_blocks t) = length (tree_blocks prev) + content_blocks (prev \<noteq> Null_node) ss"
proof (induction s and e and prev ss arbitrary: h t h' and h t h' and h t h'
    rule: rules_stmt_opt_else_rules_content.induct)
  case (2 what body els)
  then show ?case by (fastforce simp: build_simps if_nodes_def dest: length_cond)
next
  case (10 prev s ss)
  then obtain new h1 node h2 where
    n: "rules_stmt s h = (Some new, h1)" and a: "append_stmt prev new h1 = (Some node, h2)"
    and r: "rules_content node ss h2 = (Some t, h')"
    by (auto simp: build_simps)
  note new = "10.IH"(1) [OF n]
  have "length (tree_blocks node) = length (tree_blocks prev) + stmt_blocks s +
      (if prev \<noteq> Null_node \<and> s \<noteq> St_empty then 1 else 0) \<and>
      (node \<noteq> Null_node \<longleftrightarrow> prev \<noteq> Null_node \<or> s \<noteq> St_empty)"
    using a new by (auto simp: append_stmt_def inner_node_def build_simps split: if_splits)
  with "10.IH"(2) [OF r] show ?case by simp
qed (auto simp: build_simps data_action_def plain_action_def)

lemma pending_built:
  "\<forall>n. alloc_ok h n \<Longrightarrow>
    \<exists>bs. built h bs (reduce_pending ps h) \<and> length bs = sum_list (map pending_blocks ps)"
proof (induction ps arbitrary: h)
  case (Cons p ps)
  have "\<exists>bs h1. built h bs h1 \<and> length bs = pending_blocks p \<and>
      reduce_pending (p # ps) h = reduce_pending ps h1"
  proof (cases p)
    case (P_cond c)
    obtain t h1 where t: "cond c h = (Some t, h1)" using cond_total [OF Cons.prems, of c] by (auto simp: total_def)
    with cond_built [OF t] length_cond [OF t] P_cond show ?thesis
      by (intro exI [of _ "tree_blocks t"] exI [of _ h1]) simp
  next
    case (P_content ss)
    obtain t h1 where t: "rules_content Null_node ss h = (Some t, h1)"
      using stmts_total(3) [OF Cons.prems, of Null_node ss] by (auto simp: total_def)
    with rules_built [OF t] length_stmts(3) [OF t] P_content show ?thesis
      by (intro exI [of _ "tree_blocks t"] exI [of _ h1]) simp
  next
    case (P_extra_ips xs)
    obtain ips h1 where t: "config_port_extra_ips xs h = (Some ips, h1)" "built h (map pia_block ips) h1"
      "map (\<lambda>ip. (pia_vlan ip, pia_ip ip)) ips = map (\<lambda>(v, a). (of_int (opt_vlan v), a)) xs"
      using extra_ips_ok [OF Cons.prems] by blast
    have "length ips = length xs" using arg_cong [OF t(3), of length] by simp
    with t(1,2) P_extra_ips show ?thesis by (intro exI [of _ "map pia_block ips"] exI [of _ h1]) simp
  qed
  then obtain bs h1 where 1: "built h bs h1" "length bs = pending_blocks p"
    "reduce_pending (p # ps) h = reduce_pending ps h1" by blast
  then have "\<forall>n. alloc_ok h1 n" using Cons.prems by (simp add: built_def)
  then obtain cs where "built h1 cs (reduce_pending ps h1)" "length cs = sum_list (map pending_blocks ps)"
    using Cons.IH by blast
  with 1 built_trans [OF 1(1)] show ?case by (intro exI [of _ "bs @ cs"]) simp
qed (auto intro: exI [of _ "[]"])

text \<open>
  C12. Memory of a configuration: with memory available, loading a file that configures every port and
  the rules once (any number of NAT rules, addresses and statements) succeeds, allocates
  blocks that were not in use, and freeing the result frees each of them exactly once: the memory is
  then what it was before.
\<close>

theorem config_load_free:
  assumes "heap_ok h" "\<forall>n. alloc_ok h n" "readable F argv name" "parse_of F name = Accepted items"
    and "in_range (file_ports items)" "tidy items"
  shows "\<exists>x h' h''. app_config_load F argv h = Some (Some x, h') \<and> parsed items x \<and>
    live h' = live h \<union> foot x \<and> foot x \<inter> live h = {} \<and>
    app_config_free (Some x) h' = Some h'' \<and> live h'' = live h"
proof -
  obtain x h' where x: "app_config_load F argv h = Some (Some x, h')" "config_live x h'" "parsed items x"
    "foot x \<inter> live h = {}" "live h' = live h \<union> foot x"
    using load_accepted [OF assms(1-5)] assms(6) by blast
  have "live h' - foot x = live h" using x(4,5) by blast
  with x app_config_free_live [OF x(2)] show ?thesis by simp
qed

text \<open>The memory of the heap without the configuration's blocks.\<close>

lemma free_after_load:
  assumes "config_live x h" "built h bs h'" "heap_ok h" "live h = A \<union> foot x" "foot x \<inter> A = {}"
  shows "app_config_free (Some x) h' = Some (h'\<lparr>live := A \<union> set bs\<rparr>)"
proof -
  have l: "live h' = live h \<union> set bs" "set bs \<inter> live h = {}"
    using assms(2) built_fresh [OF assms(2,3)] by (simp_all add: built_def)
  have "config_live x h'"
    using config_live_frame [OF assms(1) _ built_heap_ok [OF assms(2,3)]] config_live_foot [OF assms(1)] l
    by blast
  moreover have "live h' - foot x = A \<union> set bs" using l assms(4,5) by blast
  ultimately show ?thesis using app_config_free_live [of x h'] by simp
qed

lemma config_load_error_None:
  assumes "heap_ok h" "\<And>name. \<not> readable F argv name"
  shows "\<exists>h'. app_config_load F argv h = Some (None, h') \<and> live h' = live h"
proof (cases "alloc_ok h (next_addr h)")
  case True
  have "next_addr h \<notin> live h" using assms(1) by (auto simp: heap_ok_def)
  then have "rte_free (next_addr h) (snd (rte_zmalloc h)) = Some (h\<lparr>next_addr := Suc (next_addr h)\<rparr>)"
    using True by (simp add: rte_zmalloc_ok rte_free_def)
  with True assms(2) show ?thesis
    by (simp add: app_config_load_def readable_def rte_zmalloc_ok split: option.split)
next
  case False
  then show ?thesis by (simp add: app_config_load_def rte_zmalloc_def Let_def)
qed

text \<open>
  Errors of \<open>app_config_load\<close>: a missing file name, an unknown option, a file that cannot be opened or
  a scanner that cannot be created give the null pointer and leave no memory behind.
\<close>

theorem config_load_error:
  assumes "heap_ok h" "\<And>name. \<not> readable F argv name"
  shows "\<exists>h'. app_config_load F argv h = Some (None, h') \<and> live h' = live h"
  using assms by (rule config_load_error_None)

text \<open>
  C36. A file with a syntax error: \<open>app_config_load\<close> frees the configuration and returns the null
  pointer, but what the parser had built for the section in which the error lies is not part of the
  configuration yet and the grammar has no destructors: exactly those blocks stay allocated for good,
  every time a broken file is loaded.
\<close>

theorem config_syntax_error_leaks:
  assumes "heap_ok h" "\<forall>n. alloc_ok h n" "readable F argv name" "parse_of F name = Rejected items ps"
    and "in_range (file_ports items)" "tidy items"
  shows "\<exists>h' bs. app_config_load F argv h = Some (None, h') \<and> live h' = live h \<union> set bs \<and>
    set bs \<inter> live h = {} \<and> distinct bs \<and> length bs = sum_list (map pending_blocks ps)"
proof -
  from load_sections [OF assms(1,2,5)] assms(6) obtain a h1 c h2 where *: "rte_zmalloc h = (Some a, h1)"
    "config_file a items zero_config h1 = Some (0, c, h2)" "config_live (a, c) h2"
    "heap_ok h2" "\<forall>n. alloc_ok h2 n" "foot (a, c) \<inter> live h = {}" "live h2 = live h \<union> foot (a, c)"
    by blast
  obtain bs where bs: "built h2 bs (reduce_pending ps h2)" "length bs = sum_list (map pending_blocks ps)"
    using pending_built [OF *(5)] by blast
  note free = free_after_load [OF *(3) bs(1) *(4) *(7) *(6)]
  have "app_config_load F argv h = Some (None, (reduce_pending ps h2)\<lparr>live := live h \<union> set bs\<rparr>)"
    using *(1,2) assms(3,4) free by (simp add: app_config_load_def readable_def)
  moreover have "set bs \<inter> live h = {}" "distinct bs"
    using built_fresh [OF bs(1) *(4)] *(7) bs(1) by (auto simp: built_def)
  ultimately show ?thesis using bs(2) by (intro exI [of _ "(reduce_pending ps h2)\<lparr>live := live h \<union> set bs\<rparr>"]) auto
qed

section \<open>From the text of the file to a safe worker\<close>

text \<open>Every rules section fits a worker with \<open>n\<close> ports and ends in \<open>out\<close> or \<open>drop\<close>.\<close>

definition sound_rules :: "nat \<Rightarrow> config_item list \<Rightarrow> bool" where
  "sound_rules n items \<longleftrightarrow> (\<forall>ss \<in> set (file_rules items). stmts_fit n ss \<and> stmts_end ss)"

lemma config_port_rules:
  "config_port n m v ip xs c h = Some (r, c', h') \<Longrightarrow> rules c' = rules c \<and> length (ports c') = length (ports c)"
  by (auto simp: config_port_def bind_eq_Some_conv split: prod.splits option.splits if_splits)

lemma config_nat_rule_rules:
  "config_nat_rule cfg a b c h = Some (r, c', h') \<Longrightarrow> rules c' = rules c \<and> ports c' = ports c"
  by (auto simp: config_nat_rule_def Let_def bind_eq_Some_conv split: if_splits)

lemma config_lines_rules:
  "config_lines cfg ls c h = Some (r, c', h') \<Longrightarrow> rules c' = rules c \<and> length (ports c') = length (ports c)"
proof (induction ls arbitrary: c h)
  case (Cons l ls)
  obtain r1 c1 h1 where 1: "config_line_action cfg l c h = Some (r1, c1, h1)"
    using Cons.prems by (auto simp: bind_eq_Some_conv)
  have "rules c1 = rules c \<and> length (ports c1) = length (ports c)"
    using 1 by (cases l) (auto dest: config_port_rules config_nat_rule_rules)
  with 1 Cons show ?case by (auto split: if_splits)
qed simp

definition rules_sound :: "nat \<Rightarrow> app_config \<Rightarrow> bool" where
  "rules_sound n c \<longleftrightarrow> length (ports c) = 2 \<and> valid_node valid_action n (rules c) \<and> no_pass c"

lemma config_file_sound:
  "config_file cfg items c h = Some (0, c', h') \<Longrightarrow> rules_sound n c \<Longrightarrow> sound_rules n items \<Longrightarrow> rules_sound n c'"
proof (induction items arbitrary: c h)
  case (Cons item items)
  show ?case
  proof (cases item)
    case (Config_section ls)
    then obtain c1 h1 where 1: "config_lines cfg ls c h = Some (0, c1, h1)"
      "config_file cfg items c1 h1 = Some (0, c', h')"
      using Cons.prems(1) by (auto simp: bind_eq_Some_conv split: if_splits)
    have "rules_sound n c1" using config_lines_rules [OF 1(1)] Cons.prems(2) by (simp add: rules_sound_def no_pass_def)
    with Cons.IH [OF 1(2)] Cons.prems(3) Config_section show ?thesis by (simp add: sound_rules_def)
  next
    case (Rules_section ss)
    then obtain t h1 where 1: "rules_content Null_node ss h = (Some t, h1)"
      "config_file cfg items (c\<lparr>rules := t\<rparr>) h1 = Some (0, c', h')"
      using Cons.prems(1)
      by (auto simp: rules_section_def bind_eq_Some_conv split: if_splits prod.splits option.splits)
    have "rules_sound n (c\<lparr>rules := t\<rparr>)"
      using stmts_valid(3) [OF 1(1)] stmts_breaking(3) [OF 1(1)] Cons.prems Rules_section
      by (simp add: rules_sound_def no_pass_def sound_rules_def)
    with Cons.IH [OF 1(2)] Cons.prems(3) Rules_section show ?thesis by (simp add: sound_rules_def)
  qed
qed simp

lemma zero_config_sound: "rules_sound n zero_config"
  by (simp add: zero_config_def rules_sound_def no_pass_def)

lemma parsed_sound: "parsed items x \<Longrightarrow> sound_rules n items \<Longrightarrow> rules_sound n (snd x)"
  by (auto simp: parsed_def intro: config_file_sound [OF _ zero_config_sound])

section \<open>What the file says about the ports\<close>

text \<open>
  The MTU and the addresses with their VLANs that a file gives to every port: the last line for
  the port counts.
\<close>

type_synonym port_spec = "nat \<Rightarrow> int \<times> (u16 \<times> u32) list"

definition addr_spec :: "int option \<times> u32 \<Rightarrow> u16 \<times> u32" where
  "addr_spec a = (of_int (opt_vlan (fst a)), snd a)"

fun line_spec :: "config_line \<Rightarrow> port_spec \<Rightarrow> port_spec" where
  "line_spec (L_port n m v ip extra) f = f(nat n := (opt_mtu m, map addr_spec ((v, ip) # extra)))"
| "line_spec _ f = f"

fun item_spec :: "config_item \<Rightarrow> port_spec \<Rightarrow> port_spec" where
  "item_spec (Config_section ls) f = fold line_spec ls f"
| "item_spec (Rules_section ss) f = f"

definition ports_spec :: "app_config \<Rightarrow> port_spec" where
  "ports_spec c n = (if n < length (ports c)
    then (mtu (ports c ! n), map (\<lambda>a. (pia_vlan a, pia_ip a)) (ip_addresses (ports c ! n))) else (0, []))"

lemma new_port_ip_spec:
  "new_port_ip v a h = (Some ip, h') \<Longrightarrow> (pia_vlan ip, pia_ip ip) = addr_spec (v, a)"
  by (auto simp: new_port_ip_def build_simps addr_spec_def)

lemma extra_ips_spec:
  "config_port_extra_ips xs h = (Some ips, h') \<Longrightarrow> map (\<lambda>a. (pia_vlan a, pia_ip a)) ips = map addr_spec xs"
proof (induction xs arbitrary: ips h h')
  case (Cons x xs)
  then show ?case by (cases x) (auto simp: build_simps dest: new_port_ip_spec)
qed (auto simp: build_simps)

lemma config_port_spec:
  assumes "config_port n m v ip xs c h = Some (0, c', h')"
  shows "ports_spec c' = line_spec (L_port n m v ip xs) (ports_spec c)"
proof -
  from assms obtain ips h1 a where ips: "config_port_extra_ips xs h = (Some ips, h1)"
    and a: "new_port_ip v ip h1 = (Some a, h')" and n: "nat n < length (ports c)"
    and c': "c' = c\<lparr>ports := (ports c)[nat n := \<lparr>ip_addresses = a # ips, mtu = opt_mtu m\<rparr>]\<rparr>"
    by (auto simp: config_port_def bind_eq_Some_conv split: prod.splits option.splits if_splits)
  show ?thesis
    using extra_ips_spec [OF ips] new_port_ip_spec [OF a] n
    by (auto simp: c' ports_spec_def fun_eq_iff nth_list_update)
qed

lemma config_lines_spec:
  "config_lines cfg ls c h = Some (0, c', h') \<Longrightarrow> ports_spec c' = fold line_spec ls (ports_spec c)"
proof (induction ls arbitrary: c h)
  case (Cons l ls)
  then obtain c1 h1 where 1: "config_line_action cfg l c h = Some (0, c1, h1)"
    "config_lines cfg ls c1 h1 = Some (0, c', h')"
    by (auto simp: bind_eq_Some_conv split: if_splits)
  have "ports_spec c1 = line_spec l (ports_spec c)"
  proof (cases l)
    case (L_port n m v ip xs)
    then show ?thesis using 1(1) config_port_spec by simp
  next
    case (L_nat_rule x y)
    with 1(1) have "ports c1 = ports c" by (auto dest: config_nat_rule_rules)
    then show ?thesis using L_nat_rule by (simp add: ports_spec_def fun_eq_iff)
  qed (use 1(1) in simp)
  with Cons.IH [OF 1(2)] show ?case by simp
qed simp

lemma config_file_spec:
  "config_file cfg items c h = Some (0, c', h') \<Longrightarrow> ports_spec c' = fold item_spec items (ports_spec c)"
proof (induction items arbitrary: c h)
  case (Cons item items)
  show ?case
  proof (cases item)
    case (Config_section ls)
    then obtain c1 h1 where 1: "config_lines cfg ls c h = Some (0, c1, h1)"
      "config_file cfg items c1 h1 = Some (0, c', h')"
      using Cons.prems by (auto simp: bind_eq_Some_conv split: if_splits)
    with Cons.IH [OF 1(2)] config_lines_spec [OF 1(1)] Config_section show ?thesis by simp
  next
    case (Rules_section ss)
    then obtain t h1 where 1: "config_file cfg items (c\<lparr>rules := t\<rparr>) h1 = Some (0, c', h')"
      using Cons.prems
      by (auto simp: rules_section_def bind_eq_Some_conv split: if_splits prod.splits option.splits)
    have "ports_spec (c\<lparr>rules := t\<rparr>) = ports_spec c" by (simp add: ports_spec_def fun_eq_iff)
    with Cons.IH [OF 1] Rules_section show ?thesis by simp
  qed
qed simp

definition file_spec :: "config_item list \<Rightarrow> port_spec" where
  "file_spec items = fold item_spec items (\<lambda>_. (0, []))"

lemma parsed_spec: "parsed items x \<Longrightarrow> ports_spec (snd x) = file_spec items"
proof -
  have "ports_spec zero_config = (\<lambda>_. (0, []))"
    by (auto simp: ports_spec_def zero_config_def fun_eq_iff nth_Cons')
  then show "parsed items x \<Longrightarrow> ports_spec (snd x) = file_spec items"
    using config_file_spec by (fastforce simp: parsed_def file_spec_def)
qed

section \<open>What the file says about addresses to translate\<close>

text \<open>The NAT rules of a file, in order.\<close>

fun line_nat :: "config_line \<Rightarrow> (u32 \<times> u32) list" where
  "line_nat (L_nat_rule a b) = [(a, b)]"
| "line_nat _ = []"

fun item_nat :: "config_item \<Rightarrow> (u32 \<times> u32) list" where
  "item_nat (Config_section ls) = concat (map line_nat ls)"
| "item_nat (Rules_section ss) = []"

definition file_nat :: "config_item list \<Rightarrow> (u32 \<times> u32) list" where
  "file_nat items = concat (map item_nat items)"

text \<open>Adding the two entries of a rule to a translation; the value 0 is an absent entry.\<close>

definition put_pair :: "u32 \<times> u32 \<Rightarrow> (u32 \<rightharpoonup> u32) \<Rightarrow> (u32 \<rightharpoonup> u32)" where
  "put_pair r f = (let set1 = (\<lambda>k v g. g(k := if v = 0 then None else Some v))
     in set1 (snd r) (bswap32 (fst r)) (set1 (fst r) (bswap32 (snd r)) f))"

abbreviation table_of :: "app_config \<Rightarrow> u32 \<rightharpoonup> u32" where
  "table_of c \<equiv> nat_lookup_ip (nat_lookup c)"

lemma config_nat_rule_table:
  assumes "owned c h" "\<forall>n. alloc_ok h n" "config_nat_rule cfg a b c h = Some (r, c', h')"
  shows "table_of c' = put_pair (a, b) (table_of c)"
proof -
  have inv: "tbl_invar (nat_lookup c, h)" using assms(1,2) by (simp add: tbl_invar_def owned_def)
  obtain t g where th: "nat_tbl.add_pair (a, b) (nat_lookup c, h) = (t, g)" by fastforce
  have "add_rules_to_table (Suc cfg) (nat_lookup c) a b h = Some (0, t, g)"
    using add_rules_built [of "Suc cfg", OF _ inv, of a b] th by simp
  with assms(3) have "nat_lookup c' = fst (nat_tbl.add_pair (a, b) (nat_lookup c, h))"
    using th by (auto simp: config_nat_rule_def)
  then show ?thesis
    using inv tbl_insert_ok(2) [OF inv]
    by (simp add: nat_tbl.add_pair_def tbl_insert_ok put_pair_def)
qed

lemma config_port_table: "config_port n m v ip xs c h = Some (r, c', h') \<Longrightarrow> table_of c' = table_of c"
  by (auto simp: config_port_def bind_eq_Some_conv split: prod.splits option.splits if_splits)

lemma config_lines_table:
  "owned c h \<Longrightarrow> \<forall>n. alloc_ok h n \<Longrightarrow> in_range (concat (map line_ports ls)) \<Longrightarrow>
    config_lines cfg ls c h = Some (0, c', h') \<Longrightarrow>
    table_of c' = fold put_pair (concat (map line_nat ls)) (table_of c)"
proof (induction ls arbitrary: c h)
  case (Cons l ls)
  have r: "in_range (line_ports l)" "in_range (concat (map line_ports ls))" using Cons.prems(3) by simp_all
  obtain L c1 h1 where 1: "config_line_action cfg l c h = Some (0, c1, h1)" "keeps c h L c1 h1"
    using keeps_line [OF Cons.prems(1,2) r(1)] by blast
  then have 2: "config_lines cfg ls c1 h1 = Some (0, c', h')" using Cons.prems(4) by simp
  have "table_of c1 = fold put_pair (line_nat l) (table_of c)"
    using 1(1) config_nat_rule_table [OF Cons.prems(1,2)] by (cases l) (auto dest: config_port_table)
  with Cons.IH [OF keeps_owned [OF 1(2)] r(2) 2] show ?case by simp
qed simp

lemma config_file_table:
  "owned c h \<Longrightarrow> \<forall>n. alloc_ok h n \<Longrightarrow> in_range (file_ports items) \<Longrightarrow>
    config_file cfg items c h = Some (0, c', h') \<Longrightarrow> table_of c' = fold put_pair (file_nat items) (table_of c)"
proof (induction items arbitrary: c h)
  case (Cons item items)
  have r: "in_range (item_ports item)" "in_range (file_ports items)" using Cons.prems(3) by simp_all
  show ?case
  proof (cases item)
    case (Config_section ls)
    obtain L c1 h1 where 1: "config_lines cfg ls c h = Some (0, c1, h1)" "keeps c h L c1 h1"
      using keeps_lines [OF Cons.prems(1,2), of ls cfg] r(1) Config_section by auto
    then have 2: "config_file cfg items c1 h1 = Some (0, c', h')" using Cons.prems(4) Config_section by simp
    have "table_of c1 = fold put_pair (concat (map line_nat ls)) (table_of c)"
      using config_lines_table [OF Cons.prems(1,2) _ 1(1)] r(1) Config_section by simp
    with Cons.IH [OF keeps_owned [OF 1(2)] r(2) 2] Config_section show ?thesis by (simp add: file_nat_def)
  next
    case (Rules_section ss)
    obtain t c1 h1 where 1: "rules_section ss c h = Some (0, c1, h1)"
      "keeps c h (set (tree_blocks (rules c))) c1 h1"
      using keeps_rules_section [OF Cons.prems(1,2)] by blast
    then have 2: "config_file cfg items c1 h1 = Some (0, c', h')" using Cons.prems(4) Rules_section by simp
    have "table_of c1 = table_of c"
      using 1(1) by (auto simp: rules_section_def split: prod.splits option.splits)
    with Cons.IH [OF keeps_owned [OF 1(2)] r(2) 2] Rules_section show ?thesis by (simp add: file_nat_def)
  qed
qed (simp add: file_nat_def)

lemma put_pairs_other:
  "ip \<notin> set (map fst rs @ map snd rs) \<Longrightarrow> fold put_pair rs f ip = f ip"
  by (induction rs arbitrary: f) (auto simp: put_pair_def)

lemma put_pairs_rule:
  "good_rules rs \<Longrightarrow> (a, b) \<in> set rs \<Longrightarrow>
    fold put_pair rs f a = Some (bswap32 b) \<and> fold put_pair rs f b = Some (bswap32 a)"
proof (induction rs arbitrary: f)
  case (Cons r rs)
  show ?case
  proof (cases "(a, b) = r")
    case True
    have *: "distinct ((a # xs) @ b # ys) \<Longrightarrow> a \<notin> set (xs @ ys) \<and> b \<notin> set (xs @ ys) \<and> a \<noteq> b" for xs ys
      by auto
    have "distinct ((a # map fst rs) @ b # map snd rs)" "a \<noteq> 0" "b \<noteq> 0"
      using Cons.prems(1) unfolding True [symmetric] good_rules_def list.map fst_conv snd_conv by auto
    with * [of "map fst rs" "map snd rs"] have
      "a \<notin> set (map fst rs @ map snd rs)" "b \<notin> set (map fst rs @ map snd rs)" "a \<noteq> b" "a \<noteq> 0" "b \<noteq> 0"
      by blast+
    then show ?thesis
      using True [symmetric] put_pairs_other [of a rs] put_pairs_other [of b rs] by (simp add: put_pair_def [of "(a, b)"])
  next
    case False
    with Cons.prems have "(a, b) \<in> set rs" "good_rules rs" by (auto simp: good_rules_def)
    with Cons.IH show ?thesis by simp
  qed
qed simp

text \<open>The table of a loaded configuration translates the rules of the file.\<close>

lemma load_table:
  assumes "heap_ok h" "\<forall>n. alloc_ok h n" "readable F argv name" "parse_of F name = Accepted items"
    and "in_range (file_ports items)" "good_rules (file_nat items)" "(a, b) \<in> set (file_nat items)"
    and "app_config_load F argv h = Some (Some x, h')"
  shows "table_of (snd x) a = Some (bswap32 b) \<and> table_of (snd x) b = Some (bswap32 a)"
proof -
  define h1 where "h1 = h\<lparr>next_addr := Suc (next_addr h), live := insert (next_addr h) (live h)\<rparr>"
  have z: "rte_zmalloc h = (Some (next_addr h), h1)" using assms(2) by (simp add: rte_zmalloc_ok h1_def)
  have h1: "heap_ok h1" "\<forall>n. alloc_ok h1 n" using assms(1,2) by (auto simp: heap_ok_def h1_def)
  have "config_file (next_addr h) items zero_config h1 = Some (0, snd x, h')"
    using assms(3,4,8) z by (auto simp: app_config_load_def readable_def bind_eq_Some_conv split: if_splits)
  from config_file_table [OF zero_config_owned [OF h1(1)] h1(2) assms(5) this] put_pairs_rule [OF assms(6,7)]
  show ?thesis by simp
qed

text \<open>
  From the configuration file to safe packet processing: a worker that runs with a configuration loaded
  from a file whose rules use existing ports and sane masks and always end in \<open>out\<close> or \<open>drop\<close> processes any
  number of rounds of well-formed packets without undefined behaviour, and loses no packet.
\<close>

theorem loaded_config_runs:
  assumes "app_config_load F argv h = Some (Some x, h')" "readable F argv name"
    and "parse_of F name = Accepted items" "sound_rules (length (queues_of w)) items"
    and "dpdk_ok D" "rte_eth_dev_count D \<le> 2"
    and "rte_eth_dev_count D \<le> length (queues_of w)" "rte_eth_dev_count D \<le> length (rx_queues (wcore w))"
    and "owns [] (w\<lparr>wcore := (wcore w)\<lparr>core_config := snd x\<rparr>\<rparr>)" "\<forall>nic \<in> set nics. nic_ok nic"
  shows "\<exists>w'. main_loop D nics (w\<lparr>wcore := (wcore w)\<lparr>core_config := snd x\<rparr>\<rparr>) = Some w' \<and> owns [] w'"
proof -
  have "parsed items x"
    using assms(1-3) unfolding parsed_def app_config_load_def readable_def
    by (auto simp: bind_eq_Some_conv split: prod.splits option.splits if_splits) blast
  then have "rules_sound (length (queues_of w)) (snd x)" using assms(4) by (rule parsed_sound)
  then have "worker_ok D (w\<lparr>wcore := (wcore w)\<lparr>core_config := snd x\<rparr>\<rparr>)"
    using assms(5-8) by (simp add: worker_ok_def config_ok_def rules_sound_def)
  from main_loop_ok [OF this assms(10,9)] show ?thesis by blast
qed

section \<open>Reloading\<close>

lemma wait_used_returns:
  "reads k AND NAT_FLAG_USED \<noteq> 0 \<Longrightarrow> \<exists>m. wait_used reads 0 = Some m"
proof -
  have "\<exists>m. wait_used reads (k - d) = Some m" if "reads k AND NAT_FLAG_USED \<noteq> 0" "d \<le> k" for d
    using that(2)
  proof (induction d)
    case 0
    show ?case by (subst wait_used.simps) (simp add: that(1))
  next
    case (Suc d)
    then have "Suc (k - Suc d) = k - d" by simp
    with Suc show ?case by (subst wait_used.simps) auto
  qed
  then show "reads k AND NAT_FLAG_USED \<noteq> 0 \<Longrightarrow> \<exists>m. wait_used reads 0 = Some m" by (metis diff_self_eq_0 order_refl)
qed


fun foot_opt :: "config_ref option \<Rightarrow> nat set" where
  "foot_opt None = {}"
| "foot_opt (Some x) = foot x"

definition feet :: "master_state \<Rightarrow> nat set \<Rightarrow> nat set" where
  "feet s A = (\<Union>c \<in> A. foot_opt (conf s c))"

text \<open>The configurations of the cores in \<open>A\<close> are allocated and share nothing.\<close>

definition fam :: "master_state \<Rightarrow> nat set \<Rightarrow> bool" where
  "fam s A \<longleftrightarrow> heap_ok (mem s) \<and> (\<forall>n. alloc_ok (mem s) n) \<and>
     (\<forall>c \<in> A. case conf s c of None \<Rightarrow> True | Some x \<Rightarrow> config_live x (mem s)) \<and>
     (\<forall>c \<in> A. \<forall>d \<in> A. c \<noteq> d \<longrightarrow> foot_opt (conf s c) \<inter> foot_opt (conf s d) = {})"

lemma fam_live: "fam s A \<Longrightarrow> c \<in> A \<Longrightarrow> conf s c = Some x \<Longrightarrow> config_live x (mem s)"
  by (force simp: fam_def)

lemma fam_subset: "fam s A \<Longrightarrow> feet s A \<subseteq> live (mem s)"
proof -
  assume fam: "fam s A"
  have "foot_opt (conf s c) \<subseteq> live (mem s)" if "c \<in> A" for c
    using config_live_foot fam_live [OF fam that] by (cases "conf s c") auto
  then show ?thesis by (auto simp: feet_def)
qed

text \<open>One core gets a new configuration and loses its old one.\<close>

lemma fam_swap:
  assumes fam: "fam s A" and c: "c \<in> A" and x: "config_live x h" "foot x \<inter> live (mem s) = {}"
    and h: "heap_ok h" "\<forall>n. alloc_ok h n" "live h = live (mem s) - foot_opt (conf s c) \<union> foot x"
    and s': "conf s' = (conf s)(c \<mapsto> x)" "mem s' = h"
  shows "fam s' A" "feet s' A = feet s A - foot_opt (conf s c) \<union> foot x"
proof -
  have dis: "foot_opt (conf s d) \<inter> foot_opt (conf s c) = {}" if "d \<in> A" "d \<noteq> c" for d
    using fam c that by (auto simp: fam_def)
  have sub: "foot_opt (conf s d) \<subseteq> live (mem s)" if "d \<in> A" for d
    using fam_subset [OF fam] that by (auto simp: feet_def)
  have "case conf s' d of None \<Rightarrow> True | Some y \<Rightarrow> config_live y h" if d: "d \<in> A" for d
  proof (cases "conf s' d")
    case (Some y)
    show ?thesis
    proof (cases "d = c")
      case False
      then have y: "conf s d = Some y" using Some s' by simp
      have "config_live y h"
        using config_live_frame [OF fam_live [OF fam d y] _ h(1)] sub [OF d] dis [OF d False] y h(3) by auto
      with Some show ?thesis by simp
    qed (use Some s' x in simp)
  qed simp
  moreover have "foot_opt (conf s' d) \<inter> foot_opt (conf s' e) = {}" if "d \<in> A" "e \<in> A" "d \<noteq> e" for d e
  proof (cases "d = c \<or> e = c")
    case True
    with that s' sub [of d] sub [of e] x(2) show ?thesis by auto
  next
    case False
    with that s' fam show ?thesis by (auto simp: fam_def)
  qed
  ultimately show "fam s' A" unfolding fam_def s'(2) using h(1,2) by blast
  show "feet s' A = feet s A - foot_opt (conf s c) \<union> foot x"
    using c s' dis by (auto simp: feet_def disjoint_iff split: if_splits)
qed

text \<open>What a reload relies on: every load finds a file that configures ports and rules once.\<close>

definition good_files :: "(nat \<Rightarrow> files) \<Rightarrow> string list \<Rightarrow> config_item list \<Rightarrow> bool" where
  "good_files F argv items \<longleftrightarrow> in_range (file_ports items) \<and> tidy items \<and>
     (\<forall>k. \<exists>name. readable (F k) argv name \<and> parse_of (F k) name = Accepted items)"

lemma good_load:
  assumes "good_files F argv items" "heap_ok h" "\<forall>n. alloc_ok h n"
  shows "\<exists>x h'. app_config_load (F k) argv h = Some (Some x, h') \<and> config_live x h' \<and> parsed items x \<and>
    heap_ok h' \<and> (\<forall>n. alloc_ok h' n) \<and> foot x \<inter> live h = {} \<and> live h' = live h \<union> foot x"
proof -
  obtain name where "readable (F k) argv name" "parse_of (F k) name = Accepted items"
    using assms(1) by (auto simp: good_files_def)
  from load_accepted [OF assms(2,3) this] assms(1) show ?thesis by (auto simp: good_files_def)
qed

text \<open>The body of the loop over the cores.\<close>

lemma reload_core:
  assumes good: "good_files F argv items" and r: "conf s c \<noteq> None \<Longrightarrow> \<exists>k. reads c k AND NAT_FLAG_USED \<noteq> 0"
    and fam: "fam s A" and c: "c \<in> A" and m: "config_live m (mem s)" "foot m \<inter> feet s A = {}"
  obtains x s' where "reload_cores F reads argv m (c # cs) s = reload_cores F reads argv m cs s'"
    "parsed items x" "conf s' = (conf s)(c \<mapsto> x)" "fam s' A" "foot x \<inter> live (mem s) = {}"
    "live (mem s') = live (mem s) - foot_opt (conf s c) \<union> foot x"
    "feet s' A = feet s A - foot_opt (conf s c) \<union> foot x"
proof -
  have h: "heap_ok (mem s)" "\<forall>n. alloc_ok (mem s) n" using fam by (simp_all add: fam_def)
  obtain x h1 where x: "app_config_load (F (loads s)) argv (mem s) = Some (Some x, h1)" "config_live x h1"
    "parsed items x" "heap_ok h1" "\<forall>n. alloc_ok h1 n" "foot x \<inter> live (mem s) = {}"
    "live h1 = live (mem s) \<union> foot x"
    using good_load [OF good h, of "loads s"] by blast
  define s1 where "s1 = s\<lparr>mem := h1, loads := Suc (loads s), conf := (conf s)(c \<mapsto> x)\<rparr>"
  show thesis
  proof (cases "conf s c")
    case None
    have "reload_cores F reads argv m (c # cs) s = reload_cores F reads argv m cs s1"
      using x(1) None by (simp add: s1_def)
    moreover have l: "live h1 = live (mem s) - foot_opt (conf s c) \<union> foot x" using x(7) None by simp
    ultimately show thesis
      using that [of s1 x] fam_swap [OF fam c x(2,6,4,5) l, of s1] x(3,6) by (simp add: s1_def)
  next
    case (Some y)
    have yl: "foot y \<subseteq> live (mem s)" using config_live_foot [OF fam_live [OF fam c Some]] .
    have y: "config_live y h1"
      by (rule config_live_frame [OF fam_live [OF fam c Some] _ x(4)]) (use yl x(7) in blast)
    define h2 where "h2 = h1\<lparr>live := live h1 - foot y\<rparr>"
    define s2 where "s2 = s1\<lparr>mem := h2\<rparr>"
    obtain n where "wait_used (reads c) 0 = Some n" using wait_used_returns [of "reads c"] r Some by blast
    then have e: "reload_cores F reads argv m (c # cs) s = reload_cores F reads argv m cs s2"
      using x(1) Some app_config_free_live [OF y] by (simp add: s2_def s1_def h2_def)
    have l: "live h2 = live (mem s) - foot_opt (conf s c) \<union> foot x"
      using x(6,7) yl Some by (auto simp: h2_def)
    have h2: "heap_ok h2" "\<forall>n. alloc_ok h2 n" using x(4,5) by (auto simp: h2_def heap_ok_def)
    have "config_live x h2"
      by (rule config_live_frame [OF x(2) _ h2(1)]) (use l in blast)
    with e l show thesis
      using that [of s2 x] fam_swap [OF fam c _ x(6) h2 l, of s2] x(3,6) by (simp add: s2_def s1_def)
  qed
qed

text \<open>After the loop: the master frees the configuration it loaded to check the file.\<close>

lemma fam_free_master:
  assumes fam: "fam s A" and m: "foot m \<inter> feet s A = {}"
  defines "s' \<equiv> s\<lparr>mem := (mem s)\<lparr>live := live (mem s) - foot m\<rparr>\<rparr>"
  shows "fam s' A" "feet s' A = feet s A" "live (mem s') = live (mem s) - foot m - feet s A \<union> feet s' A"
proof -
  have sub: "feet s A \<subseteq> live (mem s)" by (rule fam_subset [OF fam])
  have sel: "live (mem s') = live (mem s) - foot m" "conf s' = conf s" by (simp_all add: s'_def)
  have h: "heap_ok (mem s')" "\<forall>n. alloc_ok (mem s') n" using fam by (auto simp: fam_def heap_ok_def s'_def)
  have "case conf s c of None \<Rightarrow> True | Some x \<Rightarrow> config_live x (mem s')" if c: "c \<in> A" for c
  proof (cases "conf s c")
    case (Some x)
    have "foot x \<subseteq> feet s A" using c Some by (force simp: feet_def)
    then have "config_live x (mem s')"
      by (intro config_live_frame [OF fam_live [OF fam c Some] _ h(1)]) (use sub m sel in auto)
    with Some show ?thesis by simp
  qed simp
  with fam h show "fam s' A" unfolding fam_def sel by blast
  show f: "feet s' A = feet s A" by (simp add: feet_def sel)
  show "live (mem s') = live (mem s) - foot m - feet s A \<union> feet s' A"
    using sub m unfolding sel f by blast
qed

lemma reload_cores_ok:
  assumes good: "good_files F argv items"
  shows "\<forall>c \<in> set cs. conf s c \<noteq> None \<longrightarrow> (\<exists>k. reads c k AND NAT_FLAG_USED \<noteq> 0) \<Longrightarrow>
    set cs \<subseteq> A \<Longrightarrow> distinct cs \<Longrightarrow> fam s A \<Longrightarrow> config_live m (mem s) \<Longrightarrow> foot m \<inter> feet s A = {} \<Longrightarrow>
    \<exists>s'. reload_cores F reads argv m cs s = Some (0, s') \<and> fam s' A \<and>
      live (mem s') = live (mem s) - foot m - feet s A \<union> feet s' A \<and>
      (\<forall>c \<in> set cs. \<exists>x. conf s' c = Some x \<and> parsed items x) \<and> (\<forall>c. c \<notin> set cs \<longrightarrow> conf s' c = conf s c)"
proof (induction cs arbitrary: s)
  case Nil
  have "reload_cores F reads argv m [] s = Some (0, s\<lparr>mem := (mem s)\<lparr>live := live (mem s) - foot m\<rparr>\<rparr>)"
    using app_config_free_live [OF Nil.prems(5)] by simp
  with fam_free_master [OF Nil.prems(4,6)] show ?case by fastforce
next
  case (Cons c cs)
  have c: "c \<in> A" "set cs \<subseteq> A" "distinct cs" "c \<notin> set cs" using Cons.prems(2,3) by auto
  have k: "conf s c \<noteq> None \<Longrightarrow> \<exists>k. reads c k AND NAT_FLAG_USED \<noteq> 0" using Cons.prems(1) by simp
  obtain x s1 where 1: "reload_cores F reads argv m (c # cs) s = reload_cores F reads argv m cs s1"
    "parsed items x" "conf s1 = (conf s)(c \<mapsto> x)" "fam s1 A" "foot x \<inter> live (mem s) = {}"
    "live (mem s1) = live (mem s) - foot_opt (conf s c) \<union> foot x"
    "feet s1 A = feet s A - foot_opt (conf s c) \<union> foot x"
    by (rule reload_core [where reads = reads and c = c, OF good k Cons.prems(4) c(1) Cons.prems(5,6)])
  have mf: "foot m \<subseteq> live (mem s)" by (rule config_live_foot [OF Cons.prems(5)])
  have cf: "foot_opt (conf s c) \<subseteq> feet s A" using c(1) by (auto simp: feet_def)
  have "config_live m (mem s1)"
    by (rule config_live_frame [OF Cons.prems(5)]) (use 1(4,6) mf cf Cons.prems(6) in \<open>auto simp: fam_def\<close>)
  moreover have "\<forall>d \<in> set cs. conf s1 d \<noteq> None \<longrightarrow> (\<exists>k. reads d k AND NAT_FLAG_USED \<noteq> 0)"
    using Cons.prems(1) 1(3) c(4) by auto
  moreover have "foot m \<inter> feet s1 A = {}" using 1(5,7) mf Cons.prems(6) by blast
  ultimately obtain s' where s': "reload_cores F reads argv m cs s1 = Some (0, s')" "fam s' A"
    "live (mem s') = live (mem s1) - foot m - feet s1 A \<union> feet s' A"
    "\<forall>c \<in> set cs. \<exists>x. conf s' c = Some x \<and> parsed items x" "\<forall>c. c \<notin> set cs \<longrightarrow> conf s' c = conf s1 c"
    using Cons.IH [OF _ c(2,3) 1(4)] by blast
  have "live (mem s1) - foot m - feet s1 A = live (mem s) - foot m - feet s A"
    using 1(5-7) cf by auto
  moreover have "conf s' c = Some x" using s'(5) 1(3) c(4) by simp
  then have "\<forall>d \<in> set (c # cs). \<exists>x. conf s' d = Some x \<and> parsed items x" using s'(4) 1(2)
    by (auto simp del: split_paired_Ex)
  ultimately show ?case unfolding 1(1) using s' 1(3) by (intro exI [of _ s']) simp
qed

lemma reload_all_ok:
  assumes "good_files F argv items" "distinct slaves" "fam s (set slaves)"
    and "\<forall>c \<in> set slaves. conf s c \<noteq> None \<longrightarrow> (\<exists>k. reads c k AND NAT_FLAG_USED \<noteq> 0)"
  shows "\<exists>s'. app_config_reload_all F reads slaves argv s = Some (0, s') \<and> fam s' (set slaves) \<and>
    (\<forall>c \<in> set slaves. \<exists>x. conf s' c = Some x \<and> parsed items x) \<and>
    (\<forall>c. c \<notin> set slaves \<longrightarrow> conf s' c = conf s c) \<and>
    live (mem s') = live (mem s) - feet s (set slaves) \<union> feet s' (set slaves)"
proof -
  have h: "heap_ok (mem s)" "\<forall>n. alloc_ok (mem s) n" using assms(3) by (simp_all add: fam_def)
  obtain m h1 where m: "app_config_load (F (loads s)) argv (mem s) = Some (Some m, h1)" "config_live m h1"
    "heap_ok h1" "\<forall>n. alloc_ok h1 n" "foot m \<inter> live (mem s) = {}" "live h1 = live (mem s) \<union> foot m"
    using good_load [OF assms(1) h, of "loads s"] by blast
  define s1 where "s1 = s\<lparr>mem := h1, loads := Suc (loads s)\<rparr>"
  have s1: "mem s1 = h1" "conf s1 = conf s" by (simp_all add: s1_def)
  have sub: "feet s (set slaves) \<subseteq> live (mem s)" by (rule fam_subset [OF assms(3)])
  have "case conf s c of None \<Rightarrow> True | Some x \<Rightarrow> config_live x h1" if c: "c \<in> set slaves" for c
  proof (cases "conf s c")
    case (Some x)
    with config_live_frame [OF fam_live [OF assms(3) c Some] _ m(3)] m(6)
      config_live_foot [OF fam_live [OF assms(3) c Some]]
    show ?thesis by auto
  qed simp
  then have fam: "fam s1 (set slaves)" using assms(3) m(3,4) unfolding fam_def s1 by blast
  have f: "feet s1 (set slaves) = feet s (set slaves)" by (simp add: feet_def s1)
  then have d: "foot m \<inter> feet s1 (set slaves) = {}" using m(5) sub by blast
  have r: "\<forall>c \<in> set slaves. conf s1 c \<noteq> None \<longrightarrow> (\<exists>k. reads c k AND NAT_FLAG_USED \<noteq> 0)"
    and m1: "config_live m (mem s1)"
    using assms(4) m(2) s1 by simp_all
  from reload_cores_ok [OF assms(1) r order_refl assms(2) fam m1 d]
  obtain s' where s': "reload_cores F reads argv m slaves s1 = Some (0, s')" "fam s' (set slaves)"
    "live (mem s') = live (mem s1) - foot m - feet s1 (set slaves) \<union> feet s' (set slaves)"
    "\<forall>c \<in> set slaves. \<exists>x. conf s' c = Some x \<and> parsed items x"
    "\<forall>c. c \<notin> set slaves \<longrightarrow> conf s' c = conf s1 c"
    by blast
  have "live (mem s1) - foot m - feet s1 (set slaves) = live (mem s) - feet s (set slaves)"
    using m(5,6) s1 f by auto
  then show ?thesis
    using s' s1 m(1) by (intro exI [of _ s']) (simp add: app_config_reload_all_def s1_def)
qed

text \<open>
  C10. A reload does what it should: if the file can be loaded, memory is available and every worker that has a
  configuration sooner or later marks its new one as used, then \<open>app_config_reload_all\<close> returns 0, every worker
  has a configuration of its own with the contents of the file, the configurations share no memory, and
  everything else is freed: what is allocated is the workers' new configurations and what did
  not belong to a worker before.
\<close>

theorem reload_all_succeeds:
  assumes "good_files F argv items" "distinct slaves" "fam s (set slaves)"
    and "\<forall>c \<in> set slaves. conf s c \<noteq> None \<longrightarrow> (\<exists>k. reads c k AND NAT_FLAG_USED \<noteq> 0)"
  shows "\<exists>s'. app_config_reload_all F reads slaves argv s = Some (0, s') \<and> fam s' (set slaves) \<and>
    (\<forall>c \<in> set slaves. \<exists>x. conf s' c = Some x \<and> parsed items x) \<and>
    (\<forall>c. c \<notin> set slaves \<longrightarrow> conf s' c = conf s c) \<and>
    live (mem s') = live (mem s) - feet s (set slaves) \<union> feet s' (set slaves)"
  using assms by (rule reload_all_ok)



section \<open>Samples\<close>

definition sample_items :: "config_item list" where
  "sample_items =
    [Config_section [L_port 0 None None 0x0A000001 [], L_empty,
       L_port 1 (Some 9000) (Some 7) 0xC0A80001 [(Some 8, 0xC0A80101)],
       L_nat_rule 0x0A000102 0xD4303132],
     Rules_section doc_rules]"

definition sample_files :: files where
  "sample_files = \<lparr>fopen_ok = (\<lambda>_. True), yylex_init_ok = True, parse_of = (\<lambda>_. Accepted sample_items)\<rparr>"

definition broken_files :: files where
  "broken_files = \<lparr>fopen_ok = (\<lambda>_. True), yylex_init_ok = True,
    parse_of = (\<lambda>_. Rejected [] [P_content [St_print, St_empty], P_cond (E_and (E_vlan 3) (E_paren (E_vlan 4)))])\<rparr>"

lemma sample_items_ok [simp]:
  "in_range (file_ports sample_items)" "tidy sample_items" "sound_rules 16 sample_items"
  by (simp_all add: sample_items_def in_range_def tidy_def sound_rules_def doc_rules_def doc_mac_def
      net_10_def net_212_def)

lemma sample_readable [simp]:
  "readable sample_files [] ''/etc/natasha.conf''" "parse_of sample_files name = Accepted sample_items"
  "readable broken_files [''natasha'', ''-f'', ''x'', ''-f'', ''y''] ''y''"
  by (simp_all add: readable_def sample_files_def broken_files_def default_config_file_def)

theorem config_load_free_witness:
  "\<exists>x h' h''. app_config_load sample_files [] heap0 = Some (Some x, h') \<and> parsed sample_items x \<and>
    live h' = foot x \<and> app_config_free (Some x) h' = Some h'' \<and> live h'' = {}"
  using config_load_free [of heap0 sample_files "[]" "''/etc/natasha.conf''" sample_items] by auto

theorem config_load_error_witness:
  "\<exists>h'. app_config_load sample_files [''natasha'', ''-f''] heap0 = Some (None, h') \<and> live h' = {}"
  using config_load_error [of heap0 sample_files "[''natasha'', ''-f'']"] by (simp add: readable_def)

theorem config_syntax_error_leaks_witness:
  "\<exists>h' bs. app_config_load broken_files [''natasha'', ''-f'', ''x'', ''-f'', ''y''] heap0 = Some (None, h') \<and>
    live h' = set bs \<and> distinct bs \<and> length bs = 6"
  using config_syntax_error_leaks [of heap0 broken_files _ "''y''" "[]"
      "[P_content [St_print, St_empty], P_cond (E_and (E_vlan 3) (E_paren (E_vlan 4)))]"]
  by (auto simp: broken_files_def [THEN arg_cong, of parse_of] in_range_def tidy_def)

lemma owns_world0_none: "owns [] (world0 c [])"
  by (auto simp: owns_def shares_def has_room_def all_queued_def queued_def empty_queue_def
      queue_ok_def world0_def map_replicate_const concat_replicate_trivial)

theorem loaded_config_runs_witness:
  "\<exists>x h' w'. app_config_load sample_files [] heap0 = Some (Some x, h') \<and>
    main_loop dpdk0 [sample_nic, sample_nic] (world0 (snd x) []) = Some w' \<and> owns [] w'"
proof -
  obtain x h' where x: "app_config_load sample_files [] heap0 = Some (Some x, h')"
    using load_accepted [of heap0 sample_files "[]" "''/etc/natasha.conf''" sample_items] by auto
  have w: "(world0 config0 [])\<lparr>wcore := (wcore (world0 config0 []))\<lparr>core_config := snd x\<rparr>\<rparr> = world0 (snd x) []"
    by (simp add: world0_def)
  have "rte_eth_dev_count dpdk0 = 2" by (simp add: dpdk0_def)
  moreover have "length (rx_queues (wcore (world0 config0 []))) = 16" by (simp add: world0_def)
  ultimately show ?thesis
    using loaded_config_runs [OF x, of "''/etc/natasha.conf''" sample_items "world0 config0 []" dpdk0
        "[sample_nic, sample_nic]"] x sample_nic_ok owns_world0_none [of "snd x"]
    unfolding w by auto
qed

definition sample_master :: master_state where
  "sample_master = \<lparr>mem = heap0, conf = (\<lambda>_. None), loads = 0\<rparr>"

lemma sample_master_ok: "fam sample_master A" "good_files (\<lambda>_. sample_files) [] sample_items"
proof -
  show "fam sample_master A" by (simp add: fam_def sample_master_def)
  show "good_files (\<lambda>_. sample_files) [] sample_items"
    unfolding good_files_def using sample_readable(1,2) sample_items_ok(1,2) by blast
qed

theorem reload_all_succeeds_witness:
  "\<exists>s'. app_config_reload_all (\<lambda>_. sample_files) (\<lambda>c k. if k < 3 then 0 else 1) [1, 2] [] sample_master =
      Some (0, s') \<and> (\<exists>x. conf s' 2 = Some x \<and> parsed sample_items x) \<and>
    live (mem s') = feet s' {1, 2}"
proof -
  have "\<forall>c \<in> set [1, 2]. conf sample_master c \<noteq> None \<longrightarrow>
      (\<exists>k. (\<lambda>c k. if k < (3 :: nat) then 0 else 1) c k AND NAT_FLAG_USED \<noteq> 0)"
    by (auto simp: NAT_FLAG_USED_def intro!: exI [of _ 3])
  from reload_all_succeeds [OF sample_master_ok(2) _ sample_master_ok(1) this] show ?thesis
    by (auto simp: feet_def sample_master_def)
qed


end
