(* ===== verification/Adm.thy ===== *)
theory Adm
  imports Config
begin

text \<open>
  The administration server, \<open>src/src/adm.c\<close>, with the protocol of \<open>src/src/cli.h\<close>
  and the shutdown path of \<open>src/src/core.c\<close> that the exit command runs.

  The server's state is the client table of \<open>adm_loop\<close> with its two counters, the workers'
  configurations (for the reload command), and ghost state: the connections that are open and
  everything given to \<open>send\<close>.  The operating system, DPDK and the workers are the
  record \<open>adm_env\<close>, one for every round of the loop: what \<open>select\<close>, \<open>accept\<close>, \<open>read\<close>, \<open>send\<close> and
  the statistics functions return, which workers run, and what their counters say.
  \<open>None\<close> is undefined behaviour, or a reload that waits for ever.
\<close>

named_theorems adm_simps \<open>command handlers\<close>

section \<open>The protocol\<close>

datatype natasha_cmd_type =
    NATASHA_CMD_NONE | NATASHA_CMD_STATUS | NATASHA_CMD_EXIT | NATASHA_CMD_RELOAD
  | NATASHA_CMD_RESET_STATS | NATASHA_CMD_DPDK_STATS | NATASHA_CMD_DPDK_XSTATS
  | NATASHA_CMD_APP_STATS | NATASHA_CMD_VERSION

fun cmd_code :: "natasha_cmd_type \<Rightarrow> u8" where
  "cmd_code NATASHA_CMD_NONE = 0"
| "cmd_code NATASHA_CMD_STATUS = 1"
| "cmd_code NATASHA_CMD_EXIT = 2"
| "cmd_code NATASHA_CMD_RELOAD = 3"
| "cmd_code NATASHA_CMD_RESET_STATS = 4"
| "cmd_code NATASHA_CMD_DPDK_STATS = 5"
| "cmd_code NATASHA_CMD_DPDK_XSTATS = 6"
| "cmd_code NATASHA_CMD_APP_STATS = 7"
| "cmd_code NATASHA_CMD_VERSION = 8"

definition NATASHA_REPLY_OK :: u8 where "NATASHA_REPLY_OK = 0"

record natasha_cmd_reply =
  reply_type :: u8
  reply_status :: u8
  reply_data_size :: u16

definition reply_bytes :: "natasha_cmd_reply \<Rightarrow> bytes" where
  "reply_bytes r = [reply_type r, reply_status r, byte_of 0 (reply_data_size r), byte_of 1 (reply_data_size r)]"

definition sizeof_reply :: int where "sizeof_reply = 4"

definition bytes64 :: "u64 \<Rightarrow> bytes" where
  "bytes64 w = [byte_of 0 w, byte_of 1 w, byte_of 2 w, byte_of 3 w,
     byte_of 4 w, byte_of 5 w, byte_of 6 w, byte_of 7 w]"

text \<open>\<open>rte_cpu_to_be_64\<close> on a little-endian host.\<close>

definition bswap64 :: "u64 \<Rightarrow> u64" where
  "bswap64 w = ucast (byte_of 7 w) OR push_bit 8 (ucast (byte_of 6 w)) OR
     push_bit 16 (ucast (byte_of 5 w)) OR push_bit 24 (ucast (byte_of 4 w)) OR
     push_bit 32 (ucast (byte_of 3 w)) OR push_bit 40 (ucast (byte_of 2 w)) OR
     push_bit 48 (ucast (byte_of 1 w)) OR push_bit 56 (ucast (byte_of 0 w))"

text \<open>The statistics of a port, as DPDK lays them out.\<close>

record natasha_eth_stats =
  ipackets :: u64
  opackets :: u64
  ibytes :: u64
  obytes :: u64
  imissed :: u64
  ierrors :: u64
  oerrors :: u64
  rx_nombuf :: u64
  q_ipackets :: "u64 list"
  q_opackets :: "u64 list"
  q_ibytes :: "u64 list"
  q_obytes :: "u64 list"
  q_errors :: "u64 list"

definition eth_stats_bytes :: "natasha_eth_stats \<Rightarrow> bytes" where
  "eth_stats_bytes p = concat (map bytes64 ([ipackets p, opackets p, ibytes p, obytes p, imissed p,
     ierrors p, oerrors p, rx_nombuf p] @ q_ipackets p @ q_opackets p @ q_ibytes p @ q_obytes p @ q_errors p))"

definition RTE_ETHDEV_QUEUE_STAT_CNTRS :: nat where "RTE_ETHDEV_QUEUE_STAT_CNTRS = 16"

definition sizeof_eth_stats :: nat where "sizeof_eth_stats = 704"

definition app_stats_bytes :: "natasha_app_stats \<Rightarrow> bytes" where
  "app_stats_bytes c = concat (map bytes64 [drop_no_rule c, drop_nat_condition c, drop_bad_l3_cksum c,
     rx_bad_l4_cksum c, drop_unknown_icmp c, drop_unhandled_ethertype c, drop_tx_notsent c])"

definition sizeof_app_stats :: nat where "sizeof_app_stats = 56"

section \<open>State and environment\<close>

definition NATASHA_MAX_CLIENTS :: nat where "NATASHA_MAX_CLIENTS = 2"

record natasha_client =
  cl_fd :: int
  cl_buf :: bytes

definition sizeof_client_buf :: nat where "sizeof_client_buf = 4096"

definition zero_client :: natasha_client where
  "zero_client = \<lparr>cl_fd = 0, cl_buf = replicate sizeof_client_buf 0\<rparr>"

text \<open>Calls of the shutdown path, in order.\<close>

datatype exit_event = Wait_lcore nat | Dev_stop nat | Dev_close nat | Default_sigterm | Kill_self

record process =
  force_quit :: bool
  events :: "exit_event list"

record adm_state =
  clients :: "natasha_client list"
  cur_clients :: int
  slaves_alive :: int
  workers :: master_state
  proc :: process
  open_fds :: "int set"
  sent :: "(int \<times> bytes) list"

record adm_sys =
  slaves :: "nat list"
  lcore_count :: nat
  dev_count :: nat
  git_version :: bytes

record adm_env =
  ev_select :: int
  ev_eintr :: bool
  ev_ready :: "int list"
  ev_running :: "nat \<Rightarrow> bool"
  ev_accept :: int
  ev_fcntl :: int
  ev_read :: "int \<Rightarrow> int \<times> bytes"
  ev_send :: "nat \<Rightarrow> nat \<Rightarrow> int"
  ev_stats_reset :: "nat \<Rightarrow> int"
  ev_stats_get :: "nat \<Rightarrow> int \<times> natasha_eth_stats"
  ev_core_stats :: "nat \<Rightarrow> natasha_app_stats option"
  ev_stack :: u16
  ev_files :: "nat \<Rightarrow> files"
  ev_flags :: "nat \<Rightarrow> nat \<Rightarrow> u32"

section \<open>Shutdown\<close>

definition SIGTERM :: int where "SIGTERM = 15"

definition log_event :: "exit_event \<Rightarrow> process \<Rightarrow> process" where
  "log_event e p = p\<lparr>events := events p @ [e]\<rparr>"

definition natasha_exit :: "adm_sys \<Rightarrow> process \<Rightarrow> process" where
  "natasha_exit S p =
    (let p = p\<lparr>force_quit := True\<rparr>;
         p = fold (\<lambda>lcore_id. log_event (Wait_lcore lcore_id)) (slaves S) p
     in fold (\<lambda>portid p. log_event (Dev_close portid) (log_event (Dev_stop portid) p)) [0..<dev_count S] p)"

definition sigterm_handler :: "adm_sys \<Rightarrow> int \<Rightarrow> process \<Rightarrow> process" where
  "sigterm_handler S signum p =
    (if signum \<noteq> SIGTERM then p
     else log_event Kill_self (log_event Default_sigterm (natasha_exit S p)))"

section \<open>Commands\<close>

type_synonym adm_handler =
  "adm_sys \<Rightarrow> adm_env \<Rightarrow> natasha_client \<Rightarrow> u8 \<Rightarrow> adm_state \<Rightarrow> (int \<times> adm_state) option"

definition adm_send :: "adm_env \<Rightarrow> int \<Rightarrow> bytes \<Rightarrow> adm_state \<Rightarrow> int \<times> adm_state" where
  "adm_send E fd data s = (ev_send E (length (sent s)) (length data), s\<lparr>sent := sent s @ [(fd, data)]\<rparr>)"

text \<open>
  The end of the simple handlers.  They do not set \<open>data_size\<close>: the bytes sent are what the stack holds.
\<close>

definition send_reply :: "adm_env \<Rightarrow> natasha_client \<Rightarrow> natasha_cmd_reply \<Rightarrow> adm_state \<Rightarrow> int \<times> adm_state" where
  "send_reply E client reply s =
    (let (nb, s) = adm_send E (cl_fd client) (reply_bytes reply) s
     in (if nb \<noteq> sizeof_reply then - 1 else 0, s))"

definition handle_cmd_status :: adm_handler where
  "handle_cmd_status S E client cmd_type s =
    Some (send_reply E client \<lparr>reply_type = cmd_type, reply_status = NATASHA_REPLY_OK,
      reply_data_size = ev_stack E\<rparr> s)"

definition handle_cmd_reload :: adm_handler where
  "handle_cmd_reload S E client cmd_type s = do {
     (ret, m) \<leftarrow> app_config_reload_all (ev_files E) (ev_flags E) (slaves S) [] (workers s);
     Some (send_reply E client \<lparr>reply_type = cmd_type, reply_status = of_int ret,
       reply_data_size = ev_stack E\<rparr> (s\<lparr>workers := m\<rparr>)) }"

definition handle_cmd_exit :: adm_handler where
  "handle_cmd_exit S E client cmd_type s =
    (let (ret, s) = send_reply E client \<lparr>reply_type = cmd_type, reply_status = NATASHA_REPLY_OK,
           reply_data_size = ev_stack E\<rparr> s
     in if ret < 0 then Some (- 1, s)
        else Some (0, s\<lparr>proc := sigterm_handler S SIGTERM (proc s)\<rparr>))"

definition handle_cmd_reset_stats :: adm_handler where
  "handle_cmd_reset_stats S E client cmd_type s =
    (let status = fold (\<lambda>port status. if ev_stats_reset E port \<noteq> 0 then of_int (ev_stats_reset E port)
           else status) [0..<dev_count S] NATASHA_REPLY_OK
     in Some (send_reply E client \<lparr>reply_type = cmd_type, reply_status = status,
          reply_data_size = ev_stack E\<rparr> s))"

text \<open>A reply followed by its data: both sends have to be complete.\<close>

definition handle_cmd_version :: adm_handler where
  "handle_cmd_version S E client cmd_type s =
    (let data_size = length (git_version S);
         (ret, s) = send_reply E client \<lparr>reply_type = cmd_type, reply_status = NATASHA_REPLY_OK,
           reply_data_size = bswap16 (of_nat data_size)\<rparr> s
     in if ret < 0 then Some (- 1, s)
        else let (nb, s) = adm_send E (cl_fd client) (git_version S) s
             in if nb \<noteq> int data_size then Some (- 1, s) else Some (0, s))"

definition cpu_to_be_port_stats :: "natasha_eth_stats \<Rightarrow> natasha_eth_stats" where
  "cpu_to_be_port_stats port = port\<lparr>ipackets := bswap64 (ipackets port), opackets := bswap64 (opackets port),
     ibytes := bswap64 (ibytes port), obytes := bswap64 (obytes port), imissed := bswap64 (imissed port),
     ierrors := bswap64 (ierrors port), oerrors := bswap64 (oerrors port), rx_nombuf := bswap64 (rx_nombuf port)\<rparr>"

definition handle_cmd_dpdk_stats :: adm_handler where
  "handle_cmd_dpdk_stats S E client cmd_type s =
    (let status = (if \<exists>port \<in> set [0..<dev_count S]. fst (ev_stats_get E port) \<noteq> 0 then - 1 else NATASHA_REPLY_OK);
         port_stats = map (\<lambda>port. cpu_to_be_port_stats (snd (ev_stats_get E port))) [0..<dev_count S];
         data_size = sizeof_eth_stats * dev_count S;
         (ret, s) = send_reply E client \<lparr>reply_type = cmd_type, reply_status = status,
           reply_data_size = bswap16 (of_nat data_size)\<rparr> s
     in if ret < 0 then Some (- 1, s)
        else let (nb, s) = adm_send E (cl_fd client) (concat (map eth_stats_bytes port_stats)) s
             in if nb \<noteq> int data_size then Some (- 1, s) else Some (0, s))"

definition cpu_to_be_app_stats :: "natasha_app_stats \<Rightarrow> natasha_app_stats" where
  "cpu_to_be_app_stats c = \<lparr>drop_no_rule = bswap64 (drop_no_rule c),
     drop_nat_condition = bswap64 (drop_nat_condition c), drop_bad_l3_cksum = bswap64 (drop_bad_l3_cksum c),
     rx_bad_l4_cksum = bswap64 (rx_bad_l4_cksum c), drop_unknown_icmp = bswap64 (drop_unknown_icmp c),
     drop_unhandled_ethertype = bswap64 (drop_unhandled_ethertype c), drop_tx_notsent = bswap64 (drop_tx_notsent c)\<rparr>"

fun send_core_stats :: "adm_env \<Rightarrow> natasha_client \<Rightarrow> nat list \<Rightarrow> adm_state \<Rightarrow> (int \<times> adm_state) option" where
  "send_core_stats E client [] s = Some (0, s)"
| "send_core_stats E client (coreid # rest) s = do {
     core_stats \<leftarrow> ev_core_stats E coreid;
     let core_stats = cpu_to_be_app_stats core_stats;
     let (nb, s) = adm_send E (cl_fd client) [of_nat coreid] s;
     if nb \<noteq> 1 then Some (- 1, s)
     else do {
       let (nb, s) = adm_send E (cl_fd client) (app_stats_bytes core_stats) s;
       if nb \<noteq> int sizeof_app_stats then Some (- 1, s) else send_core_stats E client rest s } }"

definition handle_cmd_app_stats :: adm_handler where
  "handle_cmd_app_stats S E client cmd_type s =
    (let data_size = (sizeof_app_stats + 1) * (lcore_count S - 1);
         (ret, s) = send_reply E client \<lparr>reply_type = cmd_type, reply_status = NATASHA_REPLY_OK,
           reply_data_size = bswap16 (of_nat data_size)\<rparr> s
     in if ret < 0 then Some (- 1, s) else send_core_stats E client (slaves S) s)"

definition natasha_commands :: "(natasha_cmd_type \<times> adm_handler) list" where
  "natasha_commands =
    [(NATASHA_CMD_STATUS, handle_cmd_status), (NATASHA_CMD_EXIT, handle_cmd_exit),
     (NATASHA_CMD_RELOAD, handle_cmd_reload), (NATASHA_CMD_RESET_STATS, handle_cmd_reset_stats),
     (NATASHA_CMD_VERSION, handle_cmd_version), (NATASHA_CMD_DPDK_STATS, handle_cmd_dpdk_stats),
     (NATASHA_CMD_APP_STATS, handle_cmd_app_stats)]"

fun find_command :: "u8 \<Rightarrow> (natasha_cmd_type \<times> adm_handler) list \<Rightarrow> adm_handler option" where
  "find_command type [] = None"
| "find_command type ((c, func) # rest) = (if cmd_code c = type then Some func else find_command type rest)"

definition handle_client_query ::
  "adm_sys \<Rightarrow> adm_env \<Rightarrow> natasha_client \<Rightarrow> adm_state \<Rightarrow> (int \<times> adm_state) option" where
  "handle_client_query S E client s = do {
     type \<leftarrow> ld8 (cl_buf client) 0;
     case find_command type natasha_commands of
       Some func \<Rightarrow> func S E client type s
     | None \<Rightarrow> Some (- 1, s) }"

section \<open>The loop\<close>

definition disconnect_client :: "nat \<Rightarrow> adm_state \<Rightarrow> adm_state" where
  "disconnect_client i s = s\<lparr>open_fds := open_fds s - {cl_fd (clients s ! i)}, clients := (clients s)[i := zero_client]\<rparr>"

text \<open>A round goes on, \<open>adm_loop\<close> returns, or the process ends.\<close>

datatype adm_result = Next adm_state | Return int adm_state | Exit adm_state

definition check_slaves_alive :: "adm_sys \<Rightarrow> adm_env \<Rightarrow> adm_state \<Rightarrow> adm_result" where
  "check_slaves_alive S E s =
    (let ok = int (length (filter (ev_running E) (slaves S)))
     in if ok = 0 then Exit s else Next (s\<lparr>slaves_alive := ok\<rparr>))"

definition client_fds :: "adm_state \<Rightarrow> int list" where
  "client_fds s = filter (\<lambda>fd. fd \<noteq> 0) (map cl_fd (clients s))"

text \<open>
  The set that \<open>select\<close> leaves: the ready ones of the descriptors asked for, or, if it fails,
  all that were asked for.
\<close>

definition select_fds :: "int \<Rightarrow> adm_env \<Rightarrow> adm_state \<Rightarrow> int list" where
  "select_fds sock E s =
    (let readfds = sock # client_fds s
     in if ev_select E < 0 then readfds else filter (\<lambda>fd. fd \<in> set (ev_ready E)) readfds)"

fun free_slot :: "natasha_client list \<Rightarrow> nat option" where
  "free_slot [] = None"
| "free_slot (c # cs) = (if cl_fd c = 0 then Some 0 else map_option Suc (free_slot cs))"

definition new_client :: "adm_env \<Rightarrow> adm_state \<Rightarrow> adm_state" where
  "new_client E s =
    (let cs = ev_accept E
     in if cs < 0 then s
        else let s = s\<lparr>open_fds := insert cs (open_fds s)\<rparr>
             in if cur_clients s \<ge> int NATASHA_MAX_CLIENTS then s\<lparr>open_fds := open_fds s - {cs}\<rparr>
                else if ev_fcntl E < 0 then s\<lparr>open_fds := open_fds s - {cs}\<rparr>
                else (case free_slot (clients s) of None \<Rightarrow> s
                  | Some i \<Rightarrow> s\<lparr>clients := (clients s)[i := (clients s ! i)\<lparr>cl_fd := cs\<rparr>],
                      cur_clients := cur_clients s + 1\<rparr>))"

fun ready_slot :: "int list \<Rightarrow> natasha_client list \<Rightarrow> nat option" where
  "ready_slot readfds [] = None"
| "ready_slot readfds (c # cs) =
    (if cl_fd c \<in> set readfds then Some 0 else map_option Suc (ready_slot readfds cs))"

definition drop_client :: "nat \<Rightarrow> adm_state \<Rightarrow> adm_state" where
  "drop_client i s = (disconnect_client i s)\<lparr>cur_clients := cur_clients s - 1\<rparr>"

definition sizeof_query :: int where "sizeof_query = 1"

definition serve_client :: "adm_sys \<Rightarrow> adm_env \<Rightarrow> nat \<Rightarrow> adm_state \<Rightarrow> adm_state option" where
  "serve_client S E i s =
    (let (nbread, data) = ev_read E (cl_fd (clients s ! i))
     in if nbread < 0 then Some (drop_client i s)
        else if nbread = 0 then Some (drop_client i s)
        else do {
          b \<leftarrow> stn (cl_buf (clients s ! i)) 0 data;
          let s = s\<lparr>clients := (clients s)[i := (clients s ! i)\<lparr>cl_buf := b\<rparr>]\<rparr>;
          if nbread \<noteq> sizeof_query then Some (drop_client i s)
          else do {
            (ret, s) \<leftarrow> handle_client_query S E (clients s ! i) s;
            if ret < 0 then Some (drop_client i s) else Some s } })"

definition EXIT_FAILURE :: int where "EXIT_FAILURE = 1"

text \<open>
  One round of \<open>adm_loop\<close>.  After \<open>raise (SIGTERM)\<close> the handler kills the process.
\<close>

definition adm_round :: "adm_sys \<Rightarrow> int \<Rightarrow> adm_env \<Rightarrow> adm_state \<Rightarrow> adm_result option" where
  "adm_round S sock E s =
    (let readfds = select_fds sock E s
     in if ev_select E < 0 \<and> \<not> ev_eintr E then Some (Return EXIT_FAILURE s)
        else (case check_slaves_alive S E s of
            Next s \<Rightarrow>
              let s = (if sock \<in> set readfds then new_client E s else s)
              in (case ready_slot readfds (clients s) of
                    None \<Rightarrow> Some (Next s)
                  | Some i \<Rightarrow> do {
                      s \<leftarrow> serve_client S E i s;
                      if Kill_self \<in> set (events (proc s)) then Some (Exit s) else Some (Next s) })
          | r \<Rightarrow> Some r))"

fun adm_rounds :: "adm_sys \<Rightarrow> int \<Rightarrow> adm_env list \<Rightarrow> adm_state \<Rightarrow> adm_result option" where
  "adm_rounds S sock [] s = Some (Next s)"
| "adm_rounds S sock (E # Es) s = do {
     r \<leftarrow> adm_round S sock E s;
     case r of Next s \<Rightarrow> adm_rounds S sock Es s | _ \<Rightarrow> Some r }"

text \<open>The loop runs as many rounds as there are environments.\<close>

definition adm_loop :: "adm_sys \<Rightarrow> int \<Rightarrow> master_state \<Rightarrow> adm_env list \<Rightarrow> adm_result option" where
  "adm_loop S sock m Es = adm_rounds S sock Es
    \<lparr>clients = replicate NATASHA_MAX_CLIENTS zero_client, cur_clients = 0, slaves_alive = 0, workers = m,
     proc = \<lparr>force_quit = False, events = []\<rparr>, open_fds = {}, sent = []\<rparr>"

text \<open>Setting up the socket: the result, and the descriptor if it is still open.\<close>

record socket_env =
  ev_socket :: int
  ev_setsockopt :: int
  ev_nonblock :: int
  ev_bind :: int
  ev_listen :: int

definition adm_server ::
  "adm_sys \<Rightarrow> socket_env \<Rightarrow> master_state \<Rightarrow> adm_env list \<Rightarrow> (int + adm_result option) \<times> int option" where
  "adm_server S N m Es =
    (let s = ev_socket N
     in if s < 0 then (Inl EXIT_FAILURE, None)
        else if ev_setsockopt N < 0 then (Inl EXIT_FAILURE, None)
        else if ev_nonblock N < 0 then (Inl EXIT_FAILURE, None)
        else if ev_bind N < 0 then (Inl EXIT_FAILURE, None)
        else if ev_listen N < 0 then (Inl EXIT_FAILURE, None)
        else (Inr (adm_loop S s m Es), Some s))"

section \<open>The client table\<close>

text \<open>
  The invariant: two slots, \<open>cur_clients\<close> counts those in use, no two have the same descriptor, the
  listening socket is not among them, and the open connections are exactly those in the table.
\<close>

definition adm_inv :: "int \<Rightarrow> adm_state \<Rightarrow> bool" where
  "adm_inv sock s \<longleftrightarrow> length (clients s) = NATASHA_MAX_CLIENTS \<and>
     cur_clients s = int (length (client_fds s)) \<and> distinct (client_fds s) \<and> sock \<notin> set (client_fds s) \<and>
     open_fds s = set (client_fds s) \<and>
     (\<forall>c \<in> set (clients s). length (cl_buf c) = sizeof_client_buf)"

text \<open>
  What the operating system promises: a new descriptor is not in use and not standard input, and
  \<open>read\<close> writes as many bytes as it says, at most the size of the buffer.  Every worker has its
  counters, and a reload, if one is asked for, returns.
\<close>

definition calls_ok :: "adm_sys \<Rightarrow> adm_env \<Rightarrow> adm_state \<Rightarrow> bool" where
  "calls_ok S E s \<longleftrightarrow>
     (\<forall>fd. fst (ev_read E fd) > 0 \<longrightarrow>
        int (length (snd (ev_read E fd))) = fst (ev_read E fd) \<and> length (snd (ev_read E fd)) \<le> sizeof_client_buf) \<and>
     (\<forall>c \<in> set (slaves S). ev_core_stats E c \<noteq> None) \<and>
     app_config_reload_all (ev_files E) (ev_flags E) (slaves S) [] (workers s) \<noteq> None"

definition env_ok :: "adm_sys \<Rightarrow> int \<Rightarrow> adm_env \<Rightarrow> adm_state \<Rightarrow> bool" where
  "env_ok S sock E s \<longleftrightarrow> ev_accept E \<noteq> 0 \<and> ev_accept E \<noteq> sock \<and> ev_accept E \<notin> open_fds s \<and> calls_ok S E s"

fun envs_ok :: "adm_sys \<Rightarrow> int \<Rightarrow> adm_env list \<Rightarrow> adm_state \<Rightarrow> bool" where
  "envs_ok S sock [] s \<longleftrightarrow> True"
| "envs_ok S sock (E # Es) s \<longleftrightarrow> env_ok S sock E s \<and>
    (case adm_round S sock E s of Some (Next s') \<Rightarrow> envs_ok S sock Es s' | _ \<Rightarrow> True)"

fun result_state :: "adm_result \<Rightarrow> adm_state" where
  "result_state (Next s) = s"
| "result_state (Return code s) = s"
| "result_state (Exit s) = s"

definition same_table :: "adm_state \<Rightarrow> adm_state \<Rightarrow> bool" where
  "same_table s s' \<longleftrightarrow> clients s' = clients s \<and> cur_clients s' = cur_clients s \<and> open_fds s' = open_fds s"

lemma same_table_refl [simp]: "same_table s s"
  by (simp add: same_table_def)

lemma send_same_table: "same_table s (snd (send_reply E client reply s))" "same_table s (snd (adm_send E fd data s))"
  by (simp_all add: send_reply_def adm_send_def same_table_def)

lemma send_core_stats_total:
  "\<forall>c \<in> set cs. ev_core_stats E c \<noteq> None \<Longrightarrow>
    \<exists>r s'. send_core_stats E client cs s = Some (r, s') \<and> same_table s s'"
proof (induction cs arbitrary: s)
  case (Cons c cs)
  let ?s = "s\<lparr>sent := sent s @ [(cl_fd client, [of_nat c])]\<rparr>"
  obtain st where st: "ev_core_stats E c = Some st" using Cons.prems by auto
  let ?s' = "?s\<lparr>sent := sent ?s @ [(cl_fd client, app_stats_bytes (cpu_to_be_app_stats st))]\<rparr>"
  obtain r s' where "send_core_stats E client cs ?s' = Some (r, s')" "same_table ?s' s'"
    using Cons by fastforce
  with st show ?case by (auto simp: adm_send_def same_table_def)
qed simp

lemma adm_inv_same: "same_table s s' \<Longrightarrow> adm_inv sock s' \<longleftrightarrow> adm_inv sock s"
  by (simp add: same_table_def adm_inv_def client_fds_def)

text \<open>
  The contract between the loop and the functions in \<open>natasha_commands\<close>: a command returns and leaves
  the client table alone.
\<close>

locale command_handler =
  fixes func :: adm_handler
  assumes returns: "\<And>S E s client t. calls_ok S E s \<Longrightarrow> \<exists>r s'. func S E client t s = Some (r, s') \<and> same_table s s'"
begin

lemma keeps_inv:
  assumes "calls_ok S E s" "adm_inv sock s"
  shows "\<exists>r s'. func S E client t s = Some (r, s') \<and> clients s' = clients s \<and> adm_inv sock s'"
proof -
  obtain r s' where "func S E client t s = Some (r, s')" "same_table s s'" using returns [OF assms(1)] by blast
  with assms(2) adm_inv_same [of s s'] show ?thesis by (auto simp: same_table_def)
qed

end

lemma simple_reply: "same_table s s1 \<Longrightarrow> \<exists>r s'. send_reply E client reply s1 = (r, s') \<and> same_table s s'"
  using send_same_table(1) [of s1 E client reply] by (cases "send_reply E client reply s1") (simp add: same_table_def)

interpretation status_cmd: command_handler handle_cmd_status
  by unfold_locales (simp add: handle_cmd_status_def simple_reply)

interpretation reset_cmd: command_handler handle_cmd_reset_stats
  by unfold_locales (simp add: handle_cmd_reset_stats_def simple_reply)

interpretation exit_cmd: command_handler handle_cmd_exit
  by unfold_locales (auto simp: handle_cmd_exit_def send_reply_def adm_send_def same_table_def)

interpretation version_cmd: command_handler handle_cmd_version
  by unfold_locales (auto simp: handle_cmd_version_def send_reply_def adm_send_def same_table_def Let_def)

interpretation dpdk_stats_cmd: command_handler handle_cmd_dpdk_stats
  by unfold_locales (auto simp: handle_cmd_dpdk_stats_def send_reply_def adm_send_def same_table_def Let_def)

interpretation reload_cmd: command_handler handle_cmd_reload
proof unfold_locales
  fix S E s client t
  assume "calls_ok S E s"
  then obtain ret m where m: "app_config_reload_all (ev_files E) (ev_flags E) (slaves S) [] (workers s) = Some (ret, m)"
    by (auto simp: calls_ok_def)
  have "same_table s (s\<lparr>workers := m\<rparr>)" by (simp add: same_table_def)
  from simple_reply [OF this] m show "\<exists>r s'. handle_cmd_reload S E client t s = Some (r, s') \<and> same_table s s'"
    by (simp add: handle_cmd_reload_def)
qed

interpretation app_stats_cmd: command_handler handle_cmd_app_stats
proof unfold_locales
  fix S E s client t
  assume "calls_ok S E s"
  then have stats: "\<forall>c \<in> set (slaves S). ev_core_stats E c \<noteq> None" by (simp add: calls_ok_def)
  have "\<exists>r s'. send_core_stats E client (slaves S) (s\<lparr>sent := sent s @ [(cl_fd client, b)]\<rparr>) = Some (r, s') \<and>
      same_table s s'" for b
    using send_core_stats_total [OF stats, of client "s\<lparr>sent := sent s @ [(cl_fd client, b)]\<rparr>"]
    by (auto simp: same_table_def)
  then show "\<exists>r s'. handle_cmd_app_stats S E client t s = Some (r, s') \<and> same_table s s'"
    by (auto simp: handle_cmd_app_stats_def send_reply_def adm_send_def same_table_def Let_def)
qed

lemma commands_are_handlers: "find_command t natasha_commands = Some func \<Longrightarrow> command_handler func"
  using status_cmd.command_handler_axioms reset_cmd.command_handler_axioms exit_cmd.command_handler_axioms
    version_cmd.command_handler_axioms dpdk_stats_cmd.command_handler_axioms
    reload_cmd.command_handler_axioms app_stats_cmd.command_handler_axioms
  by (auto simp: natasha_commands_def split: if_splits)

lemma query_total:
  assumes "calls_ok S E s" "adm_inv sock s" "length (cl_buf client) = sizeof_client_buf"
  shows "\<exists>r s'. handle_client_query S E client s = Some (r, s') \<and> clients s' = clients s \<and> adm_inv sock s'"
proof -
  have l: "ld8 (cl_buf client) 0 = Some (cl_buf client ! 0)"
    using assms(3) by (simp add: ld8_def sizeof_client_buf_def)
  show ?thesis
  proof (cases "find_command (cl_buf client ! 0) natasha_commands")
    case None
    then show ?thesis using assms(2) by (simp add: handle_client_query_def l)
  next
    case (Some func)
    from command_handler.keeps_inv [OF commands_are_handlers [OF Some] assms(1,2)] show ?thesis by (simp add: handle_client_query_def l Some)
  qed
qed

lemma two_clients: "adm_inv sock s \<Longrightarrow> \<exists>a b. clients s = [a, b]"
  by (simp add: adm_inv_def NATASHA_MAX_CLIENTS_def two_ports)

lemma adm_inv_drop:
  assumes "adm_inv sock s" "i < 2" "cl_fd (clients s ! i) \<noteq> 0"
  shows "adm_inv sock (drop_client i s)"
proof -
  obtain a b where ab: "clients s = [a, b]" using two_clients [OF assms(1)] by blast
  consider "i = 0" | "i = 1" using assms(2) by linarith
  then show ?thesis
    by cases (use assms ab in \<open>auto simp: adm_inv_def drop_client_def disconnect_client_def client_fds_def
        zero_client_def NATASHA_MAX_CLIENTS_def\<close>)
qed

lemma adm_inv_new:
  assumes inv: "adm_inv sock s" and cs: "ev_accept E \<noteq> 0" "ev_accept E \<noteq> sock" "ev_accept E \<notin> open_fds s"
  shows "adm_inv sock (new_client E s)"
proof -
  obtain a b where ab: "clients s = [a, b]" using two_clients [OF inv] by blast
  have closed: "s\<lparr>open_fds := insert (ev_accept E) (open_fds s) - {ev_accept E}\<rparr> = s" using cs(3) by simp
  show ?thesis
  proof (cases "ev_accept E < 0 \<or> cur_clients s \<ge> 2 \<or> ev_fcntl E < 0")
    case True
    then have "new_client E s = s"
      using closed by (auto simp: new_client_def NATASHA_MAX_CLIENTS_def Let_def)
    then show ?thesis using inv by simp
  next
    case False
    have n: "new_client E s = (case free_slot [a, b] of None \<Rightarrow> s\<lparr>open_fds := insert (ev_accept E) (open_fds s)\<rparr>
        | Some i \<Rightarrow> s\<lparr>open_fds := insert (ev_accept E) (open_fds s),
            clients := [a, b][i := ([a, b] ! i)\<lparr>cl_fd := ev_accept E\<rparr>], cur_clients := cur_clients s + 1\<rparr>)"
      using False ab by (simp add: new_client_def NATASHA_MAX_CLIENTS_def Let_def split: option.split)
    consider "cl_fd a = 0" | "cl_fd a \<noteq> 0" "cl_fd b = 0" | "cl_fd a \<noteq> 0" "cl_fd b \<noteq> 0" by blast
    then show ?thesis
    proof cases
      case 3
      then show ?thesis using inv False ab by (simp add: adm_inv_def client_fds_def)
    qed (use inv cs ab in \<open>auto simp: n adm_inv_def client_fds_def NATASHA_MAX_CLIENTS_def\<close>)
  qed
qed

lemma ready_slot_some:
  "ready_slot readfds cs = Some i \<Longrightarrow> i < length cs \<and> cl_fd (cs ! i) \<in> set readfds"
  by (induction cs arbitrary: i) (auto split: if_splits)

lemma serve_client_ok:
  assumes inv: "adm_inv sock s" and env: "calls_ok S E s" and i: "i < 2" "cl_fd (clients s ! i) \<noteq> 0"
  shows "\<exists>s'. serve_client S E i s = Some s' \<and> adm_inv sock s'"
proof -
  obtain nbread data where rd: "ev_read E (cl_fd (clients s ! i)) = (nbread, data)" by fastforce
  show ?thesis
  proof (cases "nbread \<le> 0")
    case True
    with rd adm_inv_drop [OF inv i] show ?thesis by (auto simp: serve_client_def)
  next
    case pos: False
    have len: "length (clients s) = 2" "length (cl_buf (clients s ! i)) = sizeof_client_buf"
      using inv i by (auto simp: adm_inv_def NATASHA_MAX_CLIENTS_def)
    have d: "length data \<le> sizeof_client_buf" using env pos rd unfolding calls_ok_def by (metis fst_conv snd_conv not_le)
    define b where "b = wrn (cl_buf (clients s ! i)) 0 data"
    have b: "stn (cl_buf (clients s ! i)) 0 data = Some b" "length b = sizeof_client_buf"
      using d len by (simp_all add: stn_def b_def length_wrn)
    define s1 where "s1 = s\<lparr>clients := (clients s)[i := (clients s ! i)\<lparr>cl_buf := b\<rparr>]\<rparr>"
    have fds: "map cl_fd (clients s1) = map cl_fd (clients s)"
      using i len by (simp add: s1_def map_update list_update_same_conv)
    have inv1: "adm_inv sock s1"
      using inv fds b(2) unfolding adm_inv_def client_fds_def
      by (auto simp: s1_def dest!: set_update_subset_insert [THEN subsetD])
    have i1: "cl_fd (clients s1 ! i) \<noteq> 0" using i len by (simp add: s1_def)
    show ?thesis
    proof (cases "nbread = sizeof_query")
      case False
      with rd pos b(1) adm_inv_drop [OF inv1 i(1) i1] show ?thesis
        by (auto simp: serve_client_def s1_def Let_def)
    next
      case True
      have "calls_ok S E s1" using env by (simp add: calls_ok_def s1_def)
      moreover have "length (cl_buf (clients s1 ! i)) = sizeof_client_buf" using b(2) i len by (simp add: s1_def)
      ultimately obtain ret s2 where q: "handle_client_query S E (clients s1 ! i) s1 = Some (ret, s2)" "clients s2 = clients s1" "adm_inv sock s2"
        using query_total [OF _ inv1] by blast
      have inv2: "adm_inv sock s2" "cl_fd (clients s2 ! i) \<noteq> 0" using i1 q(2,3) by simp_all
      have "serve_client S E i s = Some (if ret < 0 then drop_client i s2 else s2)"
        using rd pos b(1) True q(1) unfolding s1_def by (simp add: serve_client_def Let_def)
      with inv2 adm_inv_drop [OF inv2(1) i(1) inv2(2)] show ?thesis by simp
    qed
  qed
qed

lemma adm_round_ok:
  assumes inv: "adm_inv sock s" and env: "env_ok S sock E s" and sock: "0 < sock"
  shows "\<exists>r. adm_round S sock E s = Some r \<and> adm_inv sock (result_state r)"
proof (cases "ev_select E < 0 \<and> \<not> ev_eintr E \<or> filter (ev_running E) (slaves S) = []")
  case True
  with inv show ?thesis by (auto simp: adm_round_def check_slaves_alive_def Let_def)
next
  case False
  let ?R = "select_fds sock E s"
  define s1 where "s1 = s\<lparr>slaves_alive := int (length (filter (ev_running E) (slaves S)))\<rparr>"
  define s2 where "s2 = (if sock \<in> set ?R then new_client E s1 else s1)"
  have s1: "same_table s s1" "env_ok S sock E s1" "check_slaves_alive S E s = Next s1"
    using env False by (simp_all add: same_table_def env_ok_def calls_ok_def s1_def check_slaves_alive_def)
  have "adm_inv sock s1" using inv adm_inv_same [OF s1(1)] by simp
  then have inv2: "adm_inv sock s2"
    using adm_inv_new [of sock s1 E] s1(2) by (simp add: s2_def env_ok_def)
  have w2: "workers s2 = workers s1"
    by (simp add: s2_def new_client_def Let_def split: option.split)
  have r: "adm_round S sock E s = (case ready_slot ?R (clients s2) of None \<Rightarrow> Some (Next s2)
      | Some i \<Rightarrow> do { s \<leftarrow> serve_client S E i s2;
          if Kill_self \<in> set (events (proc s)) then Some (Exit s) else Some (Next s) })"
    using False unfolding adm_round_def Let_def s1(3) s2_def by auto
  show ?thesis
  proof (cases "ready_slot ?R (clients s2)")
    case None
    with r inv2 show ?thesis by simp
  next
    case (Some i)
    have i: "i < 2" "cl_fd (clients s2 ! i) \<in> set ?R"
      using ready_slot_some [OF Some] inv2 by (simp_all add: adm_inv_def NATASHA_MAX_CLIENTS_def)
    have "0 \<notin> set ?R" using sock by (auto simp: select_fds_def client_fds_def Let_def)
    then have "cl_fd (clients s2 ! i) \<noteq> 0" using i(2) by metis
    moreover have "calls_ok S E s2" using s1(2) w2 by (simp add: env_ok_def calls_ok_def)
    ultimately obtain s3 where "serve_client S E i s2 = Some s3" "adm_inv sock s3"
      using serve_client_ok [OF inv2 _ i(1)] by blast
    with r Some show ?thesis by simp
  qed
qed

lemma adm_rounds_ok:
  "adm_inv sock s \<Longrightarrow> 0 < sock \<Longrightarrow> envs_ok S sock Es s \<Longrightarrow>
    \<exists>r. adm_rounds S sock Es s = Some r \<and> adm_inv sock (result_state r)"
proof (induction Es arbitrary: s)
  case (Cons E Es)
  obtain r where r: "adm_round S sock E s = Some r" "adm_inv sock (result_state r)"
    using adm_round_ok [OF Cons.prems(1) _ Cons.prems(2)] Cons.prems(3) by auto
  show ?case
  proof (cases r)
    case (Next s')
    with r Cons show ?thesis by simp
  qed (use r in simp_all)
qed simp

definition adm_start :: "master_state \<Rightarrow> adm_state" where
  "adm_start m = \<lparr>clients = replicate NATASHA_MAX_CLIENTS zero_client, cur_clients = 0, slaves_alive = 0,
     workers = m, proc = \<lparr>force_quit = False, events = []\<rparr>, open_fds = {}, sent = []\<rparr>"

lemma adm_inv_start: "adm_inv sock (adm_start m)"
  by (simp add: adm_inv_def adm_start_def client_fds_def zero_client_def NATASHA_MAX_CLIENTS_def)

text \<open>
  C13. The client table is consistent for ever: in every run of the administration server, whatever clients do
  and however calls of the operating system fail (as long as a reload that is asked for returns), no command is
  undefined, the counter equals the
  number of slots in use and is at most two, no descriptor is in two slots, and the open
  connections are exactly those in the table: every accepted connection is either served or closed,
  and none leaks.
\<close>

theorem adm_loop_invariant:
  assumes "0 < sock" "envs_ok S sock Es (adm_start m)"
  shows "\<exists>r. adm_loop S sock m Es = Some r \<and> adm_inv sock (result_state r) \<and>
    cur_clients (result_state r) \<le> int NATASHA_MAX_CLIENTS"
proof -
  obtain r where r: "adm_rounds S sock Es (adm_start m) = Some r" "adm_inv sock (result_state r)"
    using adm_rounds_ok [OF adm_inv_start assms] by blast
  then have "cur_clients (result_state r) \<le> int NATASHA_MAX_CLIENTS"
    using length_filter_le [of "\<lambda>fd. fd \<noteq> 0" "map cl_fd (clients (result_state r))"]
    by (simp add: adm_inv_def client_fds_def)
  with r show ?thesis by (simp add: adm_loop_def adm_start_def)
qed

section \<open>What a client receives\<close>

definition bytes_to :: "int \<Rightarrow> adm_state \<Rightarrow> bytes" where
  "bytes_to fd s = concat (map snd (filter (\<lambda>x. fst x = fd) (sent s)))"

text \<open>A network on which every \<open>send\<close> is complete.\<close>

definition sends_complete :: "adm_env \<Rightarrow> bool" where
  "sends_complete E \<longleftrightarrow> (\<forall>k n. ev_send E k n = int n)"

text \<open>The header of a reply as it travels: the size in network order.\<close>

definition wire_header :: "u8 \<Rightarrow> u8 \<Rightarrow> nat \<Rightarrow> bytes" where
  "wire_header t st n = [t, st, of_nat (n div 256), of_nat (n mod 256)]"

lemma bytes_to_send [adm_simps]:
  "bytes_to fd (snd (adm_send E fd data s)) = bytes_to fd s @ data"
  by (simp add: bytes_to_def adm_send_def)

lemma length_reply_bytes [simp]: "length (reply_bytes r) = 4"
  by (simp add: reply_bytes_def)

lemma byte_of_of_nat:
  assumes "n < 65536"
  shows "byte_of 0 (of_nat n :: u16) = of_nat (n mod 256)" "byte_of 1 (of_nat n :: u16) = of_nat (n div 256)"
proof -
  have n: "unat (of_nat n :: u16) = n" using assms by (simp add: unat_of_nat)
  have "unat (byte_of 0 (of_nat n :: u16)) = n mod 256"
    using n by (simp add: byte_of_def unsigned_ucast_eq take_bit_eq_mod)
  moreover have "unat (byte_of 1 (of_nat n :: u16)) = n div 256"
    using n assms by (simp add: byte_of_def unsigned_ucast_eq unat_drop_bit_eq take_bit_nat_def drop_bit_nat_def)
  ultimately show "byte_of 0 (of_nat n :: u16) = of_nat (n mod 256)" "byte_of 1 (of_nat n :: u16) = of_nat (n div 256)"
    using assms by (simp_all add: word_unat_eq_iff unat_of_nat)
qed

lemma reply_bytes_header:
  assumes "n < 65536"
  shows "reply_bytes \<lparr>reply_type = t, reply_status = st, reply_data_size = bswap16 (of_nat n)\<rparr> = wire_header t st n"
  using byte_of_of_nat [OF assms] by (simp add: reply_bytes_def wire_header_def bswap16_def codec_simps)

lemma send_reply_complete [adm_simps]:
  "sends_complete E \<Longrightarrow> send_reply E client r s =
    (0, s\<lparr>sent := sent s @ [(cl_fd client, reply_bytes r)]\<rparr>)"
  by (simp add: send_reply_def adm_send_def sends_complete_def sizeof_reply_def)

lemma bytes_to_snoc [adm_simps]:
  "bytes_to fd (s\<lparr>sent := sent s @ [(fd, b)]\<rparr>) = bytes_to fd s @ b"
  by (simp add: bytes_to_def)

definition be64 :: "bytes \<Rightarrow> u64" where
  "be64 b = ucast (b ! 7) OR push_bit 8 (ucast (b ! 6)) OR
     push_bit 16 (ucast (b ! 5)) OR push_bit 24 (ucast (b ! 4)) OR
     push_bit 32 (ucast (b ! 3)) OR push_bit 40 (ucast (b ! 2)) OR
     push_bit 48 (ucast (b ! 1)) OR push_bit 56 (ucast (b ! 0))"

lemma length_bytes64 [simp]: "length (bytes64 w) = 8"
  by (simp add: bytes64_def)

lemma byte_of_bswap64:
  "bytes64 (bswap64 w) = [byte_of 7 w, byte_of 6 w, byte_of 5 w, byte_of 4 w,
     byte_of 3 w, byte_of 2 w, byte_of 1 w, byte_of 0 w]"
  unfolding bytes64_def bswap64_def
  by (intro arg_cong2 [where f = Cons] refl; rule bit_word_eqI; auto simp: bit_simps dest: bit_imp_le_length)

lemma be64_bswap64: "be64 (bytes64 (bswap64 w)) = w"
proof (rule bit_word_eqI)
  fix n assume "n < LENGTH(64)"
  then consider "n < 8" | "8 \<le> n" "n < 16" | "16 \<le> n" "n < 24" | "24 \<le> n" "n < 32"
    | "32 \<le> n" "n < 40" | "40 \<le> n" "n < 48" | "48 \<le> n" "n < 56" | "56 \<le> n" "n < 64"
    by fastforce
  then show "bit (be64 (bytes64 (bswap64 w))) n = bit w n"
    unfolding byte_of_bswap64 be64_def by cases (simp_all add: bit_simps less_diff_conv2)
qed

text \<open>How a client reads the application statistics: one byte for the core, then seven counters.\<close>

definition decode_counters :: "bytes \<Rightarrow> natasha_app_stats" where
  "decode_counters b = \<lparr>drop_no_rule = be64 (rdn b 0 8), drop_nat_condition = be64 (rdn b 8 8),
     drop_bad_l3_cksum = be64 (rdn b 16 8), rx_bad_l4_cksum = be64 (rdn b 24 8),
     drop_unknown_icmp = be64 (rdn b 32 8), drop_unhandled_ethertype = be64 (rdn b 40 8),
     drop_tx_notsent = be64 (rdn b 48 8)\<rparr>"

fun decode_app_stats :: "nat \<Rightarrow> bytes \<Rightarrow> (u8 \<times> natasha_app_stats) list" where
  "decode_app_stats 0 b = []"
| "decode_app_stats (Suc n) b = (b ! 0, decode_counters (rdn b 1 56)) # decode_app_stats n (drop 57 b)"

lemma length_app_stats_bytes [simp]: "length (app_stats_bytes c) = 56"
  by (simp add: app_stats_bytes_def)

lemma decode_counters_bytes: "decode_counters (app_stats_bytes (cpu_to_be_app_stats c)) = c"
  by (simp add: decode_counters_def app_stats_bytes_def cpu_to_be_app_stats_def rdn_def be64_bswap64)

definition core_payload :: "(nat \<Rightarrow> natasha_app_stats) \<Rightarrow> nat list \<Rightarrow> bytes" where
  "core_payload st cs = concat (map (\<lambda>c. of_nat c # app_stats_bytes (cpu_to_be_app_stats (st c))) cs)"

lemma decode_payload:
  "decode_app_stats (length cs) (core_payload st cs) = map (\<lambda>c. (of_nat c, st c)) cs"
proof (induction cs)
  case (Cons c cs)
  have "rdn (core_payload st (c # cs)) 1 56 = app_stats_bytes (cpu_to_be_app_stats (st c))"
    "drop 57 (core_payload st (c # cs)) = core_payload st cs"
    by (simp_all add: core_payload_def rdn_def)
  with Cons show ?case by (simp add: decode_counters_bytes) (simp add: core_payload_def)
qed (simp add: core_payload_def)

lemma send_core_stats_complete:
  assumes "sends_complete E"
  shows "\<forall>c \<in> set cs. ev_core_stats E c = Some (st c) \<Longrightarrow>
    \<exists>s'. send_core_stats E client cs s = Some (0, s') \<and>
      bytes_to (cl_fd client) s' = bytes_to (cl_fd client) s @ core_payload st cs"
proof (induction cs arbitrary: s)
  case (Cons c cs)
  let ?s = "s\<lparr>sent := sent s @ [(cl_fd client, [of_nat c])]\<rparr>"
  let ?s' = "?s\<lparr>sent := sent ?s @ [(cl_fd client, app_stats_bytes (cpu_to_be_app_stats (st c)))]\<rparr>"
  have "send_core_stats E client (c # cs) s = send_core_stats E client cs ?s'"
    using assms Cons.prems by (simp add: adm_send_def sends_complete_def sizeof_app_stats_def)
  moreover obtain s' where "send_core_stats E client cs ?s' = Some (0, s')"
    "bytes_to (cl_fd client) s' = bytes_to (cl_fd client) ?s' @ core_payload st cs"
    using Cons by fastforce
  moreover have "bytes_to (cl_fd client) ?s' =
      bytes_to (cl_fd client) s @ of_nat c # app_stats_bytes (cpu_to_be_app_stats (st c))"
    unfolding bytes_to_snoc by simp
  ultimately show ?case by (simp add: core_payload_def)
qed (simp add: core_payload_def)

lemma length_core_payload: "length (core_payload st cs) = 57 * length cs"
  by (induction cs) (simp_all add: core_payload_def)

text \<open>
  C19. The statistics command round trip: what a client receives is a header with the true number of bytes
  that follow, then, for every worker in order, its core number and its seven counters, which
  decode to exactly the counters of that worker.
\<close>

theorem app_stats_roundtrip:
  assumes "sends_complete E" "lcore_count S = Suc (length (slaves S))" "57 * length (slaves S) < 65536"
    and "\<forall>c \<in> set (slaves S). ev_core_stats E c = Some (st c)"
  shows "\<exists>s' payload. handle_cmd_app_stats S E client t s = Some (0, s') \<and>
    bytes_to (cl_fd client) s' = bytes_to (cl_fd client) s @ wire_header t NATASHA_REPLY_OK (length payload) @ payload \<and>
    decode_app_stats (length (slaves S)) payload = map (\<lambda>c. (of_nat c, st c)) (slaves S)"
proof -
  let ?r = "\<lparr>reply_type = t, reply_status = NATASHA_REPLY_OK,
     reply_data_size = bswap16 (of_nat (57 * length (slaves S)))\<rparr>"
  let ?s = "s\<lparr>sent := sent s @ [(cl_fd client, reply_bytes ?r)]\<rparr>"
  obtain s' where s': "send_core_stats E client (slaves S) ?s = Some (0, s')"
    "bytes_to (cl_fd client) s' = bytes_to (cl_fd client) ?s @ core_payload st (slaves S)"
    using send_core_stats_complete [OF assms(1,4)] by blast
  have "handle_cmd_app_stats S E client t s = Some (0, s')"
    using s'(1) assms(2) by (simp add: handle_cmd_app_stats_def send_reply_complete [OF assms(1)] sizeof_app_stats_def)
  moreover have "bytes_to (cl_fd client) s' = bytes_to (cl_fd client) s @
      wire_header t NATASHA_REPLY_OK (57 * length (slaves S)) @ core_payload st (slaves S)"
    using s'(2) unfolding bytes_to_snoc reply_bytes_header [OF assms(3)] by simp
  ultimately show ?thesis
    by (intro exI [of _ s'] exI [of _ "core_payload st (slaves S)"])
      (simp add: length_core_payload decode_payload)
qed

text \<open>The size of the statistics of a port, as DPDK declares them.\<close>

definition full_stats :: "natasha_eth_stats \<Rightarrow> bool" where
  "full_stats p \<longleftrightarrow> length (q_ipackets p) = RTE_ETHDEV_QUEUE_STAT_CNTRS \<and>
     length (q_opackets p) = RTE_ETHDEV_QUEUE_STAT_CNTRS \<and> length (q_ibytes p) = RTE_ETHDEV_QUEUE_STAT_CNTRS \<and>
     length (q_obytes p) = RTE_ETHDEV_QUEUE_STAT_CNTRS \<and> length (q_errors p) = RTE_ETHDEV_QUEUE_STAT_CNTRS"

lemma length_concat_bytes64: "length (concat (map bytes64 ws)) = 8 * length ws"
  by (induction ws) simp_all

lemma length_eth_stats: "full_stats p \<Longrightarrow> length (eth_stats_bytes (cpu_to_be_port_stats p)) = sizeof_eth_stats"
  by (simp add: eth_stats_bytes_def length_concat_bytes64 cpu_to_be_port_stats_def full_stats_def
      RTE_ETHDEV_QUEUE_STAT_CNTRS_def sizeof_eth_stats_def)

lemma length_concat_const: "\<forall>x \<in> set xs. length x = n \<Longrightarrow> length (concat xs) = n * length xs"
  by (induction xs) simp_all

lemma eth_payload_length:
  "\<forall>port < n. full_stats (st port) \<Longrightarrow>
    length (concat (map (\<lambda>port. eth_stats_bytes (cpu_to_be_port_stats (st port))) [0..<n])) = sizeof_eth_stats * n"
  using length_concat_const [of "map (\<lambda>port. eth_stats_bytes (cpu_to_be_port_stats (st port))) [0..<n]" sizeof_eth_stats]
  by (auto simp: length_eth_stats)

text \<open>
  Framing of the other replies with data: after the version and the port statistics commands the
  client has received a header whose size field, in network order, is the length of what follows.
\<close>

theorem data_replies_framed:
  assumes "sends_complete E" "length (git_version S) < 65536" "dev_count S \<le> 93"
    and "\<forall>port < dev_count S. full_stats (snd (ev_stats_get E port))"
  shows "(\<exists>s'. handle_cmd_version S E client t s = Some (0, s') \<and>
      bytes_to (cl_fd client) s' = bytes_to (cl_fd client) s @
        wire_header t NATASHA_REPLY_OK (length (git_version S)) @ git_version S) \<and>
    (\<exists>s' st payload. handle_cmd_dpdk_stats S E client t s = Some (0, s') \<and>
      bytes_to (cl_fd client) s' = bytes_to (cl_fd client) s @ wire_header t st (length payload) @ payload \<and>
      length payload = 704 * dev_count S)"
proof
  show "\<exists>s'. handle_cmd_version S E client t s = Some (0, s') \<and>
      bytes_to (cl_fd client) s' = bytes_to (cl_fd client) s @
        wire_header t NATASHA_REPLY_OK (length (git_version S)) @ git_version S"
    using assms(1) by (simp add: handle_cmd_version_def send_reply_complete Let_def adm_send_def
        sends_complete_def reply_bytes_header [OF assms(2)] bytes_to_def)
  let ?p = "concat (map (\<lambda>port. eth_stats_bytes (cpu_to_be_port_stats (snd (ev_stats_get E port)))) [0..<dev_count S])"
  have l: "length ?p = sizeof_eth_stats * dev_count S" using eth_payload_length [OF assms(4)] .
  have b: "sizeof_eth_stats * dev_count S < 65536" using assms(3) by (simp add: sizeof_eth_stats_def)
  show "\<exists>s' st payload. handle_cmd_dpdk_stats S E client t s = Some (0, s') \<and>
      bytes_to (cl_fd client) s' = bytes_to (cl_fd client) s @ wire_header t st (length payload) @ payload \<and>
      length payload = 704 * dev_count S"
    using assms(1) l unfolding handle_cmd_dpdk_stats_def send_reply_complete [OF assms(1)] Let_def reply_bytes_header [OF b]
    by (auto simp: adm_send_def sends_complete_def bytes_to_def o_def sizeof_eth_stats_def
        intro!: exI [of _ ?p])
qed





text \<open>
  The status reply ends in two bytes that were never written: the size field is whatever the
  stack holds.
\<close>

lemma status_reply_uninitialised:
  "sends_complete E \<Longrightarrow> \<exists>s'. handle_cmd_status S E client t s = Some (0, s') \<and>
    bytes_to (cl_fd client) s' = bytes_to (cl_fd client) s @ [t, 0, byte_of 0 (ev_stack E), byte_of 1 (ev_stack E)]"
  by (simp add: handle_cmd_status_def send_reply_complete bytes_to_def reply_bytes_def NATASHA_REPLY_OK_def)

text \<open>
  C38. A signal disconnects clients: the code goes on after \<open>EINTR\<close> although \<open>select\<close> has then not updated the
  descriptor set, so it reads from every descriptor it had asked for.  A connected client that has sent
  nothing is taken for a failed one (its non-blocking \<open>read\<close> says \<open>EAGAIN\<close>) and is disconnected.
\<close>

theorem eintr_disconnects_idle_client:
  assumes "adm_inv sock s" "0 < sock"
    and "ev_select E < 0" "ev_eintr E" "filter (ev_running E) (slaves S) \<noteq> []" "ev_accept E < 0"
    and "cl_fd (clients s ! 0) \<noteq> 0" "fst (ev_read E (cl_fd (clients s ! 0))) < 0"
    and "Kill_self \<notin> set (events (proc s))"
  shows "\<exists>s'. adm_round S sock E s = Some (Next s') \<and> cl_fd (clients s' ! 0) = 0 \<and>
    open_fds s' = open_fds s - {cl_fd (clients s ! 0)} \<and> sent s' = sent s"
proof -
  obtain a b where ab: "clients s = [a, b]" using two_clients [OF assms(1)] by blast
  define s1 where "s1 = s\<lparr>slaves_alive := int (length (filter (ev_running E) (slaves S)))\<rparr>"
  have c: "check_slaves_alive S E s = Next s1" using assms(5) by (simp add: check_slaves_alive_def s1_def)
  have n: "new_client E s1 = s1" using assms(6) by (simp add: new_client_def)
  have r: "ready_slot (select_fds sock E s) (clients s1) = Some 0"
    using assms(3,7) ab by (simp add: s1_def select_fds_def client_fds_def)
  have v: "serve_client S E 0 s1 = Some (drop_client 0 s1)"
    using assms(8) by (simp add: serve_client_def s1_def case_prod_unfold Let_def)
  have "adm_round S sock E s = Some (Next (drop_client 0 s1))"
    using assms(4,9) r v unfolding adm_round_def Let_def c
    by (simp add: n) (simp add: drop_client_def disconnect_client_def s1_def)
  then show ?thesis
    using ab by (simp add: drop_client_def disconnect_client_def s1_def zero_client_def)
qed

section \<open>Samples\<close>

definition sample_sys :: adm_sys where
  "sample_sys = \<lparr>slaves = [1, 2], lcore_count = 3, dev_count = 2, git_version = [0x76, 0x31]\<rparr>"

definition zero_eth_stats :: natasha_eth_stats where
  "zero_eth_stats = \<lparr>ipackets = 0, opackets = 0, ibytes = 0, obytes = 0, imissed = 0, ierrors = 0, oerrors = 0,
     rx_nombuf = 0, q_ipackets = replicate 16 0, q_opackets = replicate 16 0, q_ibytes = replicate 16 0,
     q_obytes = replicate 16 0, q_errors = replicate 16 0\<rparr>"

text \<open>A client connects, on a system where every call works and no configuration file can be opened.\<close>

definition sample_env :: adm_env where
  "sample_env = \<lparr>ev_select = 1, ev_eintr = False, ev_ready = [3], ev_running = (\<lambda>_. True), ev_accept = 5,
     ev_fcntl = 0, ev_read = (\<lambda>_. (- 1, [])), ev_send = (\<lambda>k n. int n), ev_stats_reset = (\<lambda>_. 0),
     ev_stats_get = (\<lambda>_. (0, zero_eth_stats)), ev_core_stats = (\<lambda>c. Some (stats0\<lparr>drop_no_rule := of_nat c\<rparr>)),
     ev_stack = 0xbeef, ev_files = (\<lambda>_. sample_files\<lparr>fopen_ok := \<lambda>_. False\<rparr>), ev_flags = (\<lambda>c k. 1)\<rparr>"

lemma sample_simps:
  "slaves sample_sys = [1, 2]" "lcore_count sample_sys = 3" "cl_fd zero_client = 0"
  "bytes_to fd (adm_start m) = []"
  by (simp_all add: sample_sys_def zero_client_def bytes_to_def adm_start_def)

lemma sample_env_ok: "env_ok sample_sys 3 sample_env (adm_start sample_master)"
proof -
  have "\<exists>s'. app_config_reload_all (\<lambda>_. sample_files\<lparr>fopen_ok := \<lambda>_. False\<rparr>) (\<lambda>c k. 1) [1, 2] [] sample_master =
      Some (- 1, s')"
    using config_load_error_None [of heap0 "sample_files\<lparr>fopen_ok := \<lambda>_. False\<rparr>" "[]"]
    by (auto simp: app_config_reload_all_def sample_master_def readable_def)
  then show ?thesis
    by (auto simp: env_ok_def calls_ok_def sample_env_def sample_sys_def adm_start_def)
qed

theorem adm_loop_invariant_witness:
  "\<exists>r. adm_loop sample_sys 3 sample_master [sample_env] = Some r \<and> adm_inv 3 (result_state r) \<and>
    cur_clients (result_state r) \<le> 2"
proof -
  have "envs_ok sample_sys 3 [sample_env] (adm_start sample_master)"
    using sample_env_ok by (simp split: option.split adm_result.split)
  from adm_loop_invariant [OF _ this] show ?thesis by (simp add: NATASHA_MAX_CLIENTS_def)
qed

theorem app_stats_roundtrip_witness:
  "\<exists>s' payload. handle_cmd_app_stats sample_sys sample_env zero_client 7 (adm_start sample_master) = Some (0, s') \<and>
    bytes_to 0 s' = wire_header 7 0 (length payload) @ payload \<and>
    decode_app_stats 2 payload =
      [(1, stats0\<lparr>drop_no_rule := 1\<rparr>), (2, stats0\<lparr>drop_no_rule := 2\<rparr>)]"
proof -
  have "sends_complete sample_env" by (simp add: sends_complete_def sample_env_def)
  moreover have "\<forall>c \<in> set (slaves sample_sys). ev_core_stats sample_env c = Some (stats0\<lparr>drop_no_rule := of_nat c\<rparr>)"
    by (simp add: sample_env_def)
  ultimately show ?thesis
    using app_stats_roundtrip [of sample_env sample_sys "\<lambda>c. stats0\<lparr>drop_no_rule := of_nat c\<rparr>" zero_client 7
        "adm_start sample_master"]
    by (simp add: sample_simps NATASHA_REPLY_OK_def numeral_2_eq_2 del: decode_app_stats.simps)
qed

theorem data_replies_framed_witness:
  "\<exists>s'. handle_cmd_version sample_sys sample_env zero_client 8 (adm_start sample_master) = Some (0, s') \<and>
      bytes_to 0 s' = [8, 0, 0, 2, 0x76, 0x31]"
proof -
  have "sends_complete sample_env" by (simp add: sends_complete_def sample_env_def)
  moreover have "\<forall>port < dev_count sample_sys. full_stats (snd (ev_stats_get sample_env port))"
    by (simp add: sample_env_def full_stats_def zero_eth_stats_def RTE_ETHDEV_QUEUE_STAT_CNTRS_def)
  ultimately show ?thesis
    using data_replies_framed [of sample_env sample_sys zero_client 8 "adm_start sample_master"]
    by (auto simp: sample_sys_def zero_client_def NATASHA_REPLY_OK_def bytes_to_def adm_start_def wire_header_def)
qed


definition one_client :: adm_state where
  "one_client = (adm_start sample_master)\<lparr>clients := [zero_client\<lparr>cl_fd := 5\<rparr>, zero_client], cur_clients := 1,
     open_fds := {5}\<rparr>"

theorem eintr_disconnects_idle_client_witness:
  "\<exists>s'. adm_round sample_sys 3 (sample_env\<lparr>ev_select := - 1, ev_eintr := True, ev_accept := - 1\<rparr>) one_client =
      Some (Next s') \<and> open_fds s' = {}"
proof -
  have "adm_inv 3 one_client"
    by (simp add: adm_inv_def one_client_def client_fds_def zero_client_def NATASHA_MAX_CLIENTS_def)
  from eintr_disconnects_idle_client [OF this, of "sample_env\<lparr>ev_select := - 1, ev_eintr := True, ev_accept := - 1\<rparr>"
      sample_sys]
  show ?thesis by (auto simp: one_client_def adm_start_def sample_env_def sample_sys_def)
qed

end
