(* ===== verification/Startup.thy ===== *)
theory Startup
  imports Adm
begin

text \<open>
  Startup, \<open>src/src/core.c\<close>: ports, queues and workers, up to the administration server.

  DPDK is the record \<open>eal\<close>: what the device reports and what every call returns.  The calls
  that configure a device are recorded in the order they are made, with their arguments
  (\<open>calls\<close>).  An uninitialised local variable is \<open>None\<close>; handing it to DPDK is undefined.
  The per-core structures are functions of the core number.
\<close>

section \<open>DPDK at startup\<close>

definition ETH_VLAN_EXTEND_OFFLOAD :: u32 where "ETH_VLAN_EXTEND_OFFLOAD = 0x0004"
definition ETH_TXQ_FLAGS_NOOFFLOADS :: u32 where "ETH_TXQ_FLAGS_NOOFFLOADS = 0x0f00"
definition DEV_TX_OFFLOAD_VLAN_INSERT :: u64 where "DEV_TX_OFFLOAD_VLAN_INSERT = 0x1"
definition DEV_TX_OFFLOAD_IPV4_CKSUM :: u64 where "DEV_TX_OFFLOAD_IPV4_CKSUM = 0x2"
definition DEV_TX_OFFLOAD_UDP_CKSUM :: u64 where "DEV_TX_OFFLOAD_UDP_CKSUM = 0x4"
definition DEV_TX_OFFLOAD_TCP_CKSUM :: u64 where "DEV_TX_OFFLOAD_TCP_CKSUM = 0x8"
definition DEV_RX_OFFLOAD_VLAN_STRIP :: u64 where "DEV_RX_OFFLOAD_VLAN_STRIP = 0x1"
definition DEV_RX_OFFLOAD_VLAN_FILTER :: u64 where "DEV_RX_OFFLOAD_VLAN_FILTER = 0x200"
definition DEV_RX_OFFLOAD_CHECKSUM :: u64 where "DEV_RX_OFFLOAD_CHECKSUM = 0xe"
definition ETHER_MAX_LEN :: int where "ETHER_MAX_LEN = 1518"

text \<open>The fields of the queue configurations that the code touches.\<close>

record rte_eth_txconf =
  txq_flags :: u32
  tx_offloads :: u64

record rte_eth_rxconf =
  rx_offloads :: u64

record rte_eth_dev_info =
  driver_name :: string
  default_txconf :: rte_eth_txconf
  default_rxconf :: rte_eth_rxconf
  tx_offload_capa :: u64
  rx_offload_capa :: u64

text \<open>The fields of \<open>struct rte_eth_conf\<close> that depend on the configuration; the others are constants.\<close>

record rte_eth_conf =
  jumbo_frame :: bool
  max_rx_pkt_len :: u32

datatype dev_call =
    Configure nat nat rte_eth_conf
  | Vlan_filter nat u16
  | Pool_create nat nat int
  | Rx_queue_setup nat nat int rte_eth_rxconf
  | Rx_stats_mapping nat nat int
  | Tx_queue_setup nat nat int rte_eth_txconf
  | Tx_stats_mapping nat nat int
  | Start nat

record eal =
  eal_sys :: adm_sys
  dev_info :: "nat \<Rightarrow> rte_eth_dev_info"
  vlan_offload :: "nat \<Rightarrow> u32"
  socket_of :: "nat \<Rightarrow> int"
  call_ret :: "dev_call \<Rightarrow> int"
  pool_ok :: "dev_call \<Rightarrow> bool"
  link_up :: "nat \<Rightarrow> nat \<Rightarrow> bool"
  launch_ret :: "nat \<Rightarrow> int"

record boot =
  calls :: "dev_call list"
  rx_ids :: "nat \<Rightarrow> u16 list"
  tx_ids :: "nat \<Rightarrow> u16 list"
  ids :: "nat \<Rightarrow> u32"
  core_stats :: "nat \<Rightarrow> (nat \<times> natasha_app_stats) option"
  confs :: master_state
  launched :: "nat list"

text \<open>A call that returns a status.\<close>

definition dev_call :: "eal \<Rightarrow> dev_call \<Rightarrow> boot \<Rightarrow> int \<times> boot" where
  "dev_call D c b = (call_ret D c, b\<lparr>calls := calls b @ [c]\<rparr>)"

section \<open>Link status\<close>

definition MAX_CHECK_TIME :: nat where "MAX_CHECK_TIME = 90"
definition CHECK_INTERVAL :: nat where "CHECK_INTERVAL = 100"

text \<open>The inner loop: whether every port is up; it stops at the first that is down.\<close>

fun all_ports_up :: "(nat \<Rightarrow> bool) \<Rightarrow> nat list \<Rightarrow> bool" where
  "all_ports_up up [] = True"
| "all_ports_up up (portid # rest) = (if \<not> up portid then False else all_ports_up up rest)"

text \<open>The number of rounds made, whether all ports were up in the last one, and the milliseconds waited.\<close>

function link_rounds :: "(nat \<Rightarrow> nat \<Rightarrow> bool) \<Rightarrow> nat \<Rightarrow> nat \<Rightarrow> nat \<Rightarrow> nat \<times> bool \<times> nat" where
  "link_rounds link port_max cnt ms =
    (if cnt \<le> MAX_CHECK_TIME then
       let up = all_ports_up (link cnt) [0..<port_max];
           ms = (if up then ms else ms + CHECK_INTERVAL)
       in if up \<or> cnt = MAX_CHECK_TIME - 1 then (Suc cnt, up, ms)
          else link_rounds link port_max (Suc cnt) ms
     else (cnt, False, ms))"
  by auto
termination
  by (relation "measure (\<lambda>(link, port_max, cnt, ms). Suc MAX_CHECK_TIME - cnt)") auto

declare link_rounds.simps [simp del]

definition check_ports_link_status :: "eal \<Rightarrow> nat \<Rightarrow> nat \<times> bool \<times> nat" where
  "check_ports_link_status D port_max = link_rounds (link_up D) port_max 0 0"

section \<open>Queues\<close>

text \<open>The result with the two configurations, which the function has initialised.\<close>

definition set_vlan_offload ::
  "eal \<Rightarrow> nat \<Rightarrow> rte_eth_dev_info \<Rightarrow> int \<times> rte_eth_txconf \<times> rte_eth_rxconf" where
  "set_vlan_offload D port info =
    (let txq_conf = default_txconf info; rxq_conf = default_rxconf info
     in if vlan_offload D port AND ETH_VLAN_EXTEND_OFFLOAD \<noteq> 0 then (- 1, txq_conf, rxq_conf)
        else if tx_offload_capa info AND DEV_TX_OFFLOAD_VLAN_INSERT = 0 then (- 1, txq_conf, rxq_conf)
        else (0, \<lparr>txq_flags = txq_flags txq_conf AND NOT ETH_TXQ_FLAGS_NOOFFLOADS,
                  tx_offloads = tx_offloads txq_conf OR DEV_TX_OFFLOAD_VLAN_INSERT\<rparr>,
              \<lparr>rx_offloads = rx_offloads rxq_conf OR (DEV_RX_OFFLOAD_VLAN_FILTER OR DEV_RX_OFFLOAD_VLAN_STRIP)\<rparr>))"

definition set_rx_chksum_offload ::
  "rte_eth_dev_info \<Rightarrow> rte_eth_rxconf option \<Rightarrow> int \<times> rte_eth_rxconf option" where
  "set_rx_chksum_offload info rxq_conf =
    (if rx_offload_capa info AND DEV_RX_OFFLOAD_CHECKSUM = 0 then (- 1, rxq_conf)
     else (0, map_option (\<lambda>c. c\<lparr>rx_offloads := rx_offloads c OR DEV_RX_OFFLOAD_CHECKSUM\<rparr>) rxq_conf))"

text \<open>The body of the loop over the cores, for one core.\<close>

definition setup_core_queue ::
  "eal \<Rightarrow> nat \<Rightarrow> nat \<Rightarrow> bool \<Rightarrow> rte_eth_txconf option \<Rightarrow> rte_eth_rxconf option \<Rightarrow> nat \<Rightarrow> nat \<Rightarrow> boot \<Rightarrow>
    (int \<times> boot) option" where
  "setup_core_queue D port ncores per_queue_stats txq_conf rxq_conf core queue_id b =
    (let rx_stats_idx = int queue_id;
         tx_stats_idx = int queue_id + int ncores - 1;
         socket = socket_of D core;
         pool = Pool_create port queue_id socket;
         b = b\<lparr>calls := calls b @ [pool]\<rparr>
     in if \<not> pool_ok D pool then Some (- 1, b)
        else do {
          rx \<leftarrow> rxq_conf;
          let (ret, b) = dev_call D (Rx_queue_setup port queue_id socket rx) b;
          if ret < 0 then Some (ret, b)
          else do {
            let (ret, b) = (if per_queue_stats then dev_call D (Rx_stats_mapping port queue_id rx_stats_idx) b else (0, b));
            if ret < 0 then Some (ret, b)
            else do {
              tx \<leftarrow> txq_conf;
              let (ret, b) = dev_call D (Tx_queue_setup port queue_id socket tx) b;
              if ret < 0 then Some (ret, b)
              else do {
                let (ret, b) = (if per_queue_stats then dev_call D (Tx_stats_mapping port queue_id tx_stats_idx) b else (0, b));
                if ret < 0 then Some (ret, b)
                else do {
                  guard (port < NATASHA_MAX_QUEUES);
                  Some (0, b\<lparr>rx_ids := (rx_ids b)(core := (rx_ids b core)[port := of_nat queue_id]),
                    tx_ids := (tx_ids b)(core := (tx_ids b core)[port := of_nat queue_id])\<rparr>) } } } } })"

fun setup_core_queues ::
  "eal \<Rightarrow> nat \<Rightarrow> nat \<Rightarrow> bool \<Rightarrow> rte_eth_txconf option \<Rightarrow> rte_eth_rxconf option \<Rightarrow> nat list \<Rightarrow> nat \<Rightarrow> boot \<Rightarrow>
    (int \<times> boot) option" where
  "setup_core_queues D port ncores pq tx rx [] queue_id b = Some (0, b)"
| "setup_core_queues D port ncores pq tx rx (core # rest) queue_id b = do {
     (ret, b) \<leftarrow> setup_core_queue D port ncores pq tx rx core queue_id b;
     if ret < 0 then Some (ret, b) else setup_core_queues D port ncores pq tx rx rest (Suc queue_id) b }"

definition setup_queues :: "eal \<Rightarrow> nat \<Rightarrow> nat \<Rightarrow> bool \<Rightarrow> boot \<Rightarrow> (int \<times> boot) option" where
  "setup_queues D port ncores enable_vlan_offload b =
    (let info = dev_info D port;
         pq = support_per_queue_statistics (\<lambda>p. driver_name (dev_info D (unat p))) (of_nat port);
         (ret, txq_conf, rxq_conf) =
           (if enable_vlan_offload
            then (case set_vlan_offload D port info of (ret, tx, rx) \<Rightarrow> (ret, Some tx, Some rx))
            else (0, None, None))
     in if ret \<noteq> 0 then Some (- 1, b)
        else let (_, rxq_conf) = set_rx_chksum_offload info rxq_conf
             in setup_core_queues D port ncores pq txq_conf rxq_conf (slaves (eal_sys D)) 0 b)"

section \<open>Ports\<close>

fun vlan_filters :: "eal \<Rightarrow> nat \<Rightarrow> port_ip_addr list \<Rightarrow> bool \<Rightarrow> boot \<Rightarrow> (bool option) \<times> boot" where
  "vlan_filters D port [] enabled b = (Some enabled, b)"
| "vlan_filters D port (a # next) enabled b =
    (if pia_vlan a \<noteq> 0 then
       let (ret, b) = dev_call D (Vlan_filter port (pia_vlan a)) b
       in if ret < 0 then (None, b) else vlan_filters D port next True b
     else vlan_filters D port next enabled b)"

definition setup_port :: "eal \<Rightarrow> nat \<Rightarrow> app_config \<Rightarrow> boot \<Rightarrow> (int \<times> boot) option" where
  "setup_port D port config b = do {
     guard (port < length (ports config));
     let p = ports config ! port;
     let eth_conf = \<lparr>jumbo_frame = mtu p > ETHER_MAX_LEN, max_rx_pkt_len = of_int (mtu p)\<rparr>;
     let info = dev_info D port;
     if tx_offload_capa info AND DEV_TX_OFFLOAD_IPV4_CKSUM = 0 \<or>
        tx_offload_capa info AND DEV_TX_OFFLOAD_TCP_CKSUM = 0 \<or>
        tx_offload_capa info AND DEV_TX_OFFLOAD_UDP_CKSUM = 0 then Some (- 1, b)
     else if ip_addresses p = [] then Some (- 1, b)
     else do {
       let ncores = lcore_count (eal_sys D);
       let nqueues = ncores - 1;
       let (ret, b) = dev_call D (Configure port nqueues eth_conf) b;
       if ret < 0 then Some (ret, b)
       else (case vlan_filters D port (ip_addresses p) False b of
           (None, b) \<Rightarrow> Some (- 1, b)
         | (Some enable_vlan_offload, b) \<Rightarrow> do {
             (ret, b) \<leftarrow> setup_queues D port ncores enable_vlan_offload b;
             if ret < 0 then Some (ret, b)
             else do {
               let (ret, b) = dev_call D (Start port) b;
               if ret < 0 then Some (ret, b) else Some (0, b) } }) } }"

fun setup_ports :: "eal \<Rightarrow> nat list \<Rightarrow> app_config \<Rightarrow> boot \<Rightarrow> (int \<times> boot) option" where
  "setup_ports D [] config b = Some (0, b)"
| "setup_ports D (port # rest) config b = do {
     (ret, b) \<leftarrow> setup_port D port config b;
     if ret < 0 then Some (- 1, b) else setup_ports D rest config b }"

section \<open>Workers\<close>

fun run_workers :: "eal \<Rightarrow> nat list \<Rightarrow> boot \<Rightarrow> int \<times> boot" where
  "run_workers D [] b = (0, b)"
| "run_workers D (core # rest) b =
    (let b = b\<lparr>launched := launched b @ [core]\<rparr>
     in if launch_ret D core < 0 then (- 1, b) else run_workers D rest b)"

definition init_natasha_app_stats :: "heap \<Rightarrow> (nat \<times> natasha_app_stats) option \<times> heap" where
  "init_natasha_app_stats h =
    (case rte_zmalloc h of (None, h) \<Rightarrow> (None, h) | (Some a, h) \<Rightarrow> (Some (a, stats0), h))"

fun init_workers :: "nat list \<Rightarrow> boot \<Rightarrow> int \<times> boot" where
  "init_workers [] b = (0, b)"
| "init_workers (core # rest) b =
    (let (st, h) = init_natasha_app_stats (mem (confs b));
         b = b\<lparr>ids := (ids b)(core := of_nat core),
           confs := (confs b)\<lparr>mem := h, conf := (conf (confs b))(core := None)\<rparr>,
           core_stats := (core_stats b)(core := st)\<rparr>
     in if st = None then (- 1, b) else init_workers rest b)"

definition setup_app ::
  "eal \<Rightarrow> (nat \<Rightarrow> files) \<Rightarrow> (nat \<Rightarrow> nat \<Rightarrow> u32) \<Rightarrow> string list \<Rightarrow> boot \<Rightarrow> (int \<times> boot) option" where
  "setup_app D F reads argv b = do {
     (config, h) \<leftarrow> app_config_load (F (loads (confs b))) argv (mem (confs b));
     let b = b\<lparr>confs := (confs b)\<lparr>mem := h, loads := Suc (loads (confs b))\<rparr>\<rparr>;
     case config of None \<Rightarrow> Some (- 1, b)
     | Some config \<Rightarrow>
         if dev_count (eal_sys D) = 0 then Some (- 1, b)
         else if lcore_count (eal_sys D) < 2 then Some (- 1, b)
         else do {
           (ret, b) \<leftarrow> setup_ports D [0..<dev_count (eal_sys D)] (snd config) b;
           if ret < 0 then Some (- 1, b)
           else do {
             let _ = check_ports_link_status D (dev_count (eal_sys D));
             h \<leftarrow> app_config_free (Some config) (mem (confs b));
             let b = b\<lparr>confs := (confs b)\<lparr>mem := h\<rparr>\<rparr>;
             let (ret, b) = init_workers (slaves (eal_sys D)) b;
             if ret < 0 then Some (- 1, b)
             else do {
               (ret, m) \<leftarrow> app_config_reload_all F reads (slaves (eal_sys D)) argv (confs b);
               let b = b\<lparr>confs := m\<rparr>;
               if ret < 0 then Some (- 1, b) else Some (0, b) } } } }"

text \<open>
  \<open>main\<close>: the exits through \<open>rte_exit\<close> are \<open>Inl\<close>, otherwise the result of the administration server.
\<close>

record main_env =
  stderr_getfl :: int
  stderr_setfl :: int
  eal_init :: int
  adm_socket :: socket_env
  adm_rounds_env :: "adm_env list"

definition main ::
  "eal \<Rightarrow> main_env \<Rightarrow> (nat \<Rightarrow> files) \<Rightarrow> (nat \<Rightarrow> nat \<Rightarrow> u32) \<Rightarrow> string list \<Rightarrow> boot \<Rightarrow>
    (boot \<times> (int + (int + adm_result option))) option" where
  "main D M F reads argv b =
    (if stderr_getfl M < 0 \<or> stderr_setfl M < 0 then Some (b, Inl EXIT_FAILURE)
     else if eal_init M < 0 then Some (b, Inl EXIT_FAILURE)
     else do {
       (ret, b) \<leftarrow> setup_app D F reads (drop (nat (eal_init M)) argv) b;
       if ret < 0 then Some (b, Inl EXIT_FAILURE)
       else let (ret, b) = run_workers D (slaves (eal_sys D)) b
            in if ret < 0 then Some (b, Inl EXIT_FAILURE)
               else Some (b, Inr (fst (adm_server (eal_sys D) (adm_socket M) (confs b) (adm_rounds_env M)))) })"

section \<open>The link check ends\<close>

lemma all_ports_up_iff [simp]: "all_ports_up up ps \<longleftrightarrow> (\<forall>p \<in> set ps. up p)"
  by (induction ps) auto

text \<open>All ports are up in round \<open>k\<close>.\<close>

definition links_up :: "(nat \<Rightarrow> nat \<Rightarrow> bool) \<Rightarrow> nat \<Rightarrow> nat \<Rightarrow> bool" where
  "links_up link n k \<longleftrightarrow> (\<forall>p < n. link k p)"

lemma link_round:
  assumes "cnt < 90"
  shows "link_rounds link n cnt ms =
    (if links_up link n cnt then (Suc cnt, True, ms)
     else if cnt = 89 then (90, False, ms + 100) else link_rounds link n (Suc cnt) (ms + 100))"
proof -
  have "all_ports_up (link cnt) [0..<n] = links_up link n cnt" by (simp add: links_up_def Ball_def)
  then show ?thesis
    using assms by (subst link_rounds.simps) (simp add: MAX_CHECK_TIME_def CHECK_INTERVAL_def Let_def)
qed

lemma link_rounds_skip:
  "cnt + d < 90 \<Longrightarrow> \<forall>k < d. \<not> links_up link n (cnt + k) \<Longrightarrow>
    link_rounds link n cnt ms = link_rounds link n (cnt + d) (ms + 100 * d)"
proof (induction d arbitrary: cnt ms)
  case (Suc d)
  have "\<not> links_up link n cnt" using Suc.prems(2) by force
  then have "link_rounds link n cnt ms = link_rounds link n (Suc cnt) (ms + 100)"
    using Suc.prems(1) link_round [of cnt link n ms] by simp
  also have "\<dots> = link_rounds link n (Suc cnt + d) (ms + 100 + 100 * d)"
  proof (rule Suc.IH)
    show "\<forall>k < d. \<not> links_up link n (Suc cnt + k)"
      using Suc.prems(2) by (metis Suc_less_eq add_Suc add_Suc_right)
  qed (use Suc.prems(1) in simp)
  finally show ?case by (simp add: algebra_simps)
qed simp

text \<open>
  C29. The link check at startup always ends, after at most 90 rounds and 9 seconds: at the first round
  in which all ports are up if there is one among them, and after exactly 90 rounds otherwise.
\<close>

theorem link_check_terminates:
  "if \<exists>k < 90. links_up (link_up D) n k
   then \<exists>m < 90. links_up (link_up D) n m \<and> (\<forall>k < m. \<not> links_up (link_up D) n k) \<and>
     check_ports_link_status D n = (Suc m, True, 100 * m)
   else check_ports_link_status D n = (90, False, 9000)"
proof (cases "\<exists>k < 90. links_up (link_up D) n k")
  case True
  define m where "m = (LEAST k. links_up (link_up D) n k)"
  have m: "links_up (link_up D) n m" "\<forall>k < m. \<not> links_up (link_up D) n k"
    using True LeastI [of "links_up (link_up D) n"] not_less_Least by (auto simp: m_def)
  have "m < 90" using True m(2) by (metis linorder_neqE_nat order_less_trans)
  then have "check_ports_link_status D n = (Suc m, True, 100 * m)"
    using link_rounds_skip [of 0 m "link_up D" n 0] m link_round [of m "link_up D" n "100 * m"]
    by (simp add: check_ports_link_status_def)
  with True m \<open>m < 90\<close> show ?thesis by auto
next
  case False
  then have "check_ports_link_status D n = (90, False, 9000)"
    using link_rounds_skip [of 0 89 "link_up D" n 0] link_round [of 89 "link_up D" n 8900]
    by (simp add: check_ports_link_status_def)
  with False show ?thesis by simp
qed

section \<open>Queues\<close>

text \<open>Everything DPDK is asked for works.\<close>

definition eal_works :: "eal \<Rightarrow> bool" where
  "eal_works D \<longleftrightarrow> (\<forall>c. 0 \<le> call_ret D c) \<and> (\<forall>c. pool_ok D c) \<and> (\<forall>c. 0 \<le> launch_ret D c)"

text \<open>The device calls for the queues of one core.\<close>

definition queue_calls ::
  "eal \<Rightarrow> nat \<Rightarrow> nat \<Rightarrow> bool \<Rightarrow> rte_eth_txconf \<Rightarrow> rte_eth_rxconf \<Rightarrow> nat \<Rightarrow> nat \<Rightarrow> dev_call list" where
  "queue_calls D port ncores pq tx rx core q =
    [Pool_create port q (socket_of D core), Rx_queue_setup port q (socket_of D core) rx] @
    (if pq then [Rx_stats_mapping port q (int q)] else []) @
    [Tx_queue_setup port q (socket_of D core) tx] @
    (if pq then [Tx_stats_mapping port q (int q + int ncores - 1)] else [])"

definition set_queue_ids :: "nat \<Rightarrow> nat \<Rightarrow> nat \<Rightarrow> boot \<Rightarrow> boot" where
  "set_queue_ids port core q b = b\<lparr>rx_ids := (rx_ids b)(core := (rx_ids b core)[port := of_nat q]),
     tx_ids := (tx_ids b)(core := (tx_ids b core)[port := of_nat q])\<rparr>"

lemma setup_core_queue_works:
  assumes "eal_works D" "port < 16"
  shows "setup_core_queue D port ncores pq (Some tx) (Some rx) core q b =
    Some (0, set_queue_ids port core q (b\<lparr>calls := calls b @ queue_calls D port ncores pq tx rx core q\<rparr>))"
proof -
  have c: "\<not> call_ret D c < 0" "pool_ok D c" for c using assms(1) by (simp_all add: eal_works_def not_less)
  show ?thesis
    using assms(2) by (cases pq) (simp_all add: setup_core_queue_def dev_call_def c queue_calls_def set_queue_ids_def Let_def)
qed

text \<open>The queues of a list of cores, from number \<open>q\<close> on.\<close>

definition ids_from :: "nat \<Rightarrow> nat list \<Rightarrow> nat \<Rightarrow> boot \<Rightarrow> boot \<Rightarrow> bool" where
  "ids_from port cs q b b' \<longleftrightarrow>
    (\<forall>i < length cs. rx_ids b' (cs ! i) = (rx_ids b (cs ! i))[port := of_nat (q + i)] \<and>
       tx_ids b' (cs ! i) = (tx_ids b (cs ! i))[port := of_nat (q + i)]) \<and>
    (\<forall>c. c \<notin> set cs \<longrightarrow> rx_ids b' c = rx_ids b c \<and> tx_ids b' c = tx_ids b c) \<and>
    ids b' = ids b \<and> core_stats b' = core_stats b \<and> confs b' = confs b \<and> launched b' = launched b"

lemma setup_core_queues_works:
  assumes "eal_works D" "port < 16"
  shows "distinct cs \<Longrightarrow> \<exists>b'. setup_core_queues D port ncores pq (Some tx) (Some rx) cs q b = Some (0, b') \<and>
    calls b' = calls b @ concat (map (\<lambda>i. queue_calls D port ncores pq tx rx (cs ! i) (q + i)) [0..<length cs]) \<and>
    ids_from port cs q b b'"
proof (induction cs arbitrary: q b)
  case Nil
  then show ?case by (simp add: ids_from_def)
next
  case (Cons c cs)
  let ?b = "set_queue_ids port c q (b\<lparr>calls := calls b @ queue_calls D port ncores pq tx rx c q\<rparr>)"
  obtain b' where b': "setup_core_queues D port ncores pq (Some tx) (Some rx) cs (Suc q) ?b = Some (0, b')"
    "calls b' = calls ?b @ concat (map (\<lambda>i. queue_calls D port ncores pq tx rx (cs ! i) (Suc q + i)) [0..<length cs])"
    "ids_from port cs (Suc q) ?b b'"
    using Cons by (meson distinct.simps(2))
  have "[0..<length (c # cs)] = 0 # map Suc [0..<length cs]"
    by (simp add: map_Suc_upt upt_conv_Cons del: upt_Suc)
  then have "calls b' = calls b @ concat (map (\<lambda>i. queue_calls D port ncores pq tx rx ((c # cs) ! i) (q + i)) [0..<length (c # cs)])"
    using b'(2) by (simp add: set_queue_ids_def o_def)
  moreover have "ids_from port (c # cs) q b b'"
    unfolding ids_from_def
  proof (intro conjI allI impI)
    fix i assume "i < length (c # cs)"
    then show "rx_ids b' ((c # cs) ! i) = (rx_ids b ((c # cs) ! i))[port := of_nat (q + i)]"
      "tx_ids b' ((c # cs) ! i) = (tx_ids b ((c # cs) ! i))[port := of_nat (q + i)]"
      using b'(3) Cons.prems by (cases i; force simp: ids_from_def set_queue_ids_def)+
  qed (use b'(3) in \<open>simp_all add: ids_from_def set_queue_ids_def\<close>)
  ultimately show ?case
    using b'(1) setup_core_queue_works [OF assms] by simp
qed

text \<open>What a device must be able to do.\<close>

definition cksum_capable :: "eal \<Rightarrow> nat \<Rightarrow> bool" where
  "cksum_capable D port \<longleftrightarrow> tx_offload_capa (dev_info D port) AND DEV_TX_OFFLOAD_IPV4_CKSUM \<noteq> 0 \<and>
     tx_offload_capa (dev_info D port) AND DEV_TX_OFFLOAD_TCP_CKSUM \<noteq> 0 \<and>
     tx_offload_capa (dev_info D port) AND DEV_TX_OFFLOAD_UDP_CKSUM \<noteq> 0"

definition vlan_capable :: "eal \<Rightarrow> nat \<Rightarrow> bool" where
  "vlan_capable D port \<longleftrightarrow> vlan_offload D port AND ETH_VLAN_EXTEND_OFFLOAD = 0 \<and>
     tx_offload_capa (dev_info D port) AND DEV_TX_OFFLOAD_VLAN_INSERT \<noteq> 0"

abbreviation workers_of :: "eal \<Rightarrow> nat list" where
  "workers_of D \<equiv> slaves (eal_sys D)"

definition queue_stats :: "eal \<Rightarrow> nat \<Rightarrow> bool" where
  "queue_stats D port = support_per_queue_statistics (\<lambda>p. driver_name (dev_info D (unat p))) (of_nat port)"

lemma or_and_same: "(a OR m) AND m = m" for a m :: "'a::len word"
  by (rule bit_word_eqI) (auto simp: bit_simps)

lemma or_keeps:
  fixes a b m :: "'a::len word"
  assumes "a AND m = m"
  shows "(a OR b) AND m = m"
proof (rule bit_word_eqI)
  fix n
  have "bit m n \<Longrightarrow> bit a n" using arg_cong [OF assms, of "\<lambda>w. bit w n"] by (auto simp: bit_simps)
  then show "bit ((a OR b) AND m) n = bit m n" by (auto simp: bit_simps)
qed

lemma setup_queues_works:
  assumes "eal_works D" "vlan_capable D port" "port < 16" "distinct (workers_of D)"
  shows "\<exists>b' tx rx. setup_queues D port ncores True b = Some (0, b') \<and>
    calls b' = calls b @ concat (map (\<lambda>i. queue_calls D port ncores (queue_stats D port) tx rx (workers_of D ! i) i)
      [0..<length (workers_of D)]) \<and>
    ids_from port (workers_of D) 0 b b' \<and>
    tx_offloads tx AND DEV_TX_OFFLOAD_VLAN_INSERT = DEV_TX_OFFLOAD_VLAN_INSERT \<and>
    rx_offloads rx AND DEV_RX_OFFLOAD_VLAN_STRIP = DEV_RX_OFFLOAD_VLAN_STRIP"
proof -
  obtain tx rx where v: "set_vlan_offload D port (dev_info D port) = (0, tx, rx)"
    and o: "tx_offloads tx AND DEV_TX_OFFLOAD_VLAN_INSERT = DEV_TX_OFFLOAD_VLAN_INSERT"
      "rx_offloads rx AND DEV_RX_OFFLOAD_VLAN_STRIP = DEV_RX_OFFLOAD_VLAN_STRIP"
  proof
    show "set_vlan_offload D port (dev_info D port) =
      (0, \<lparr>txq_flags = txq_flags (default_txconf (dev_info D port)) AND NOT ETH_TXQ_FLAGS_NOOFFLOADS,
           tx_offloads = tx_offloads (default_txconf (dev_info D port)) OR DEV_TX_OFFLOAD_VLAN_INSERT\<rparr>,
       \<lparr>rx_offloads = rx_offloads (default_rxconf (dev_info D port)) OR
          (DEV_RX_OFFLOAD_VLAN_FILTER OR DEV_RX_OFFLOAD_VLAN_STRIP)\<rparr>)"
      using assms(2) by (simp add: set_vlan_offload_def vlan_capable_def Let_def)
  qed (simp_all add: or_and_same or.assoc [symmetric])
  obtain rx' r where c: "set_rx_chksum_offload (dev_info D port) (Some rx) = (r, Some rx')"
    "rx_offloads rx' AND DEV_RX_OFFLOAD_VLAN_STRIP = DEV_RX_OFFLOAD_VLAN_STRIP"
    using o(2) by (cases "rx_offload_capa (dev_info D port) AND DEV_RX_OFFLOAD_CHECKSUM = 0")
      (simp_all add: set_rx_chksum_offload_def or_keeps)
  obtain b' where "setup_core_queues D port ncores (queue_stats D port) (Some tx) (Some rx') (workers_of D) 0 b = Some (0, b')"
    "calls b' = calls b @ concat (map (\<lambda>i. queue_calls D port ncores (queue_stats D port) tx rx' (workers_of D ! i) (0 + i))
      [0..<length (workers_of D)])" "ids_from port (workers_of D) 0 b b'"
    using setup_core_queues_works [OF assms(1,3,4)] by blast
  with v c o(1) show ?thesis
    by (intro exI [of _ b'] exI [of _ tx] exI [of _ rx']) (simp add: setup_queues_def queue_stats_def)
qed

text \<open>The numbers of the queues of the ports in \<open>P\<close>: worker \<open>i\<close> has queue \<open>i\<close>.\<close>

definition queues_numbered :: "boot \<Rightarrow> nat list \<Rightarrow> nat set \<Rightarrow> bool" where
  "queues_numbered b cs P \<longleftrightarrow>
    (\<forall>p \<in> P. \<forall>i < length cs. rx_ids b (cs ! i) ! p = of_nat i \<and> tx_ids b (cs ! i) ! p = of_nat i)"

definition sized :: "boot \<Rightarrow> nat list \<Rightarrow> bool" where
  "sized b cs \<longleftrightarrow> (\<forall>i < length cs. length (rx_ids b (cs ! i)) = 16 \<and> length (tx_ids b (cs ! i)) = 16)"

lemma ids_from_sized: "ids_from port cs q b b' \<Longrightarrow> sized b cs \<Longrightarrow> sized b' cs"
  by (simp add: ids_from_def sized_def)

lemma ids_from_numbered:
  "ids_from port cs 0 b b' \<Longrightarrow> sized b cs \<Longrightarrow> port < 16 \<Longrightarrow> queues_numbered b cs P \<Longrightarrow>
    queues_numbered b' cs (insert port P)"
  by (simp add: ids_from_def sized_def queues_numbered_def nth_list_update)

text \<open>
  C26. Queues: with a VLAN configured and a device that supports it, \<open>setup_queues\<close> gives worker \<open>i\<close> receive and
  transmit queue \<open>i\<close> of the port, on the worker's own memory socket, with VLAN stripping and
  insertion on; where the driver counts per queue, receive queue \<open>i\<close> is counted at index \<open>i\<close> and transmit queue \<open>i\<close>
  at \<open>n + i\<close> for \<open>n\<close> workers, as the comment above \<open>setup_port\<close> says.
\<close>

theorem setup_queues_assign:
  assumes "eal_works D" "vlan_capable D port" "port < 16" "distinct (workers_of D)" "sized b (workers_of D)"
  shows "\<exists>b' tx rx. setup_queues D port (Suc (length (workers_of D))) True b = Some (0, b') \<and>
    queues_numbered b' (workers_of D) {port} \<and>
    (\<forall>i < length (workers_of D).
      Rx_queue_setup port i (socket_of D (workers_of D ! i)) rx \<in> set (calls b') \<and>
      Tx_queue_setup port i (socket_of D (workers_of D ! i)) tx \<in> set (calls b') \<and>
      (queue_stats D port \<longrightarrow> Rx_stats_mapping port i (int i) \<in> set (calls b') \<and>
        Tx_stats_mapping port i (int (length (workers_of D) + i)) \<in> set (calls b'))) \<and>
    tx_offloads tx AND DEV_TX_OFFLOAD_VLAN_INSERT = DEV_TX_OFFLOAD_VLAN_INSERT \<and>
    rx_offloads rx AND DEV_RX_OFFLOAD_VLAN_STRIP = DEV_RX_OFFLOAD_VLAN_STRIP"
proof -
  let ?n = "length (workers_of D)"
  obtain b' tx rx where *: "setup_queues D port (Suc ?n) True b = Some (0, b')"
    "calls b' = calls b @ concat (map (\<lambda>i. queue_calls D port (Suc ?n) (queue_stats D port) tx rx (workers_of D ! i) i) [0..<?n])"
    "ids_from port (workers_of D) 0 b b'"
    "tx_offloads tx AND DEV_TX_OFFLOAD_VLAN_INSERT = DEV_TX_OFFLOAD_VLAN_INSERT"
    "rx_offloads rx AND DEV_RX_OFFLOAD_VLAN_STRIP = DEV_RX_OFFLOAD_VLAN_STRIP"
    using setup_queues_works [OF assms(1-4)] by blast
  have q: "queues_numbered b' (workers_of D) {port}"
    using ids_from_numbered [OF *(3) assms(5,3), of "{}"] by (simp add: queues_numbered_def)
  have sub: "set (queue_calls D port (Suc ?n) (queue_stats D port) tx rx (workers_of D ! i) i) \<subseteq> set (calls b')"
    if "i < ?n" for i
    using that *(2) by auto
  have "Rx_queue_setup port i (socket_of D (workers_of D ! i)) rx \<in> set (calls b') \<and>
      Tx_queue_setup port i (socket_of D (workers_of D ! i)) tx \<in> set (calls b') \<and>
      (queue_stats D port \<longrightarrow> Rx_stats_mapping port i (int i) \<in> set (calls b') \<and>
        Tx_stats_mapping port i (int (?n + i)) \<in> set (calls b'))" if "i < ?n" for i
    using sub [OF that] by (auto simp: queue_calls_def add.commute)
  with * q show ?thesis by blast
qed

lemma vlan_filters_works:
  assumes "eal_works D"
  shows "\<exists>cl. vlan_filters D port as en b =
    (Some (en \<or> (\<exists>a \<in> set as. pia_vlan a \<noteq> 0)), b\<lparr>calls := calls b @ cl\<rparr>)"
proof (induction "as" arbitrary: en b)
  case Nil
  show ?case by (intro exI [of _ "[]"]) simp
next
  case (Cons a "as")
  have c: "\<not> call_ret D c < 0" for c using assms by (simp add: eal_works_def not_less)
  show ?case
  proof (cases "pia_vlan a = 0")
    case True
    with Cons [of en b] show ?thesis by simp
  next
    case False
    obtain cl where "vlan_filters D port as True (b\<lparr>calls := calls b @ [Vlan_filter port (pia_vlan a)]\<rparr>) =
        (Some True, b\<lparr>calls := (calls b @ [Vlan_filter port (pia_vlan a)]) @ cl\<rparr>)"
      using Cons [of True "b\<lparr>calls := calls b @ [Vlan_filter port (pia_vlan a)]\<rparr>"] by auto
    with False c show ?thesis
      by (intro exI [of _ "Vlan_filter port (pia_vlan a) # cl"]) (simp add: dev_call_def)
  qed
qed

text \<open>
  C37. A port without VLANs: if no address of the port has a VLAN, as in the first example of
  \<open>docs/CONFIGURATION.md\<close>, \<open>setup_queues\<close> hands the queue configurations to DPDK without having initialised them:
  only \<open>set_vlan_offload\<close> does, and it is not called.  The behaviour is undefined.
\<close>

theorem setup_port_no_vlan_undefined:
  assumes "eal_works D" "cksum_capable D port" "port < length (ports c)" "ip_addresses (ports c ! port) \<noteq> []"
    and "\<forall>a \<in> set (ip_addresses (ports c ! port)). pia_vlan a = 0" "workers_of D \<noteq> []"
  shows "setup_port D port c b = None"
proof -
  have c: "\<not> call_ret D c < 0" "pool_ok D c" for c using assms(1) by (simp_all add: eal_works_def not_less)
  have v: "\<exists>cl. vlan_filters D port (ip_addresses (ports c ! port)) False b = (Some False, b\<lparr>calls := calls b @ cl\<rparr>)" for b
    using vlan_filters_works [OF assms(1), of port "ip_addresses (ports c ! port)" False b] assms(5) by auto
  obtain w ws where w: "workers_of D = w # ws" using assms(6) by (cases "workers_of D") auto
  have "set_rx_chksum_offload (dev_info D port) None = (r, x) \<Longrightarrow> x = None" for r x
    by (auto simp: set_rx_chksum_offload_def split: if_splits)
  then have "setup_queues D port n False b = None" for n b
    using w c by (auto simp: setup_queues_def setup_core_queue_def Let_def split: prod.split)
  moreover obtain cl where "vlan_filters D port (ip_addresses (ports c ! port)) False
      (b\<lparr>calls := calls b @ [Configure port (lcore_count (eal_sys D) - 1)
         \<lparr>jumbo_frame = mtu (ports c ! port) > ETHER_MAX_LEN, max_rx_pkt_len = of_int (mtu (ports c ! port))\<rparr>]\<rparr>) =
      (Some False, b\<lparr>calls := cl\<rparr>)"
    using v [of "b\<lparr>calls := calls b @ [Configure port (lcore_count (eal_sys D) - 1)
         \<lparr>jumbo_frame = mtu (ports c ! port) > ETHER_MAX_LEN, max_rx_pkt_len = of_int (mtu (ports c ! port))\<rparr>]\<rparr>"] by auto
  ultimately show ?thesis
    using assms(2-4) c by (simp add: setup_port_def cksum_capable_def dev_call_def Let_def)
qed

section \<open>Ports and workers\<close>

lemma ids_from_calls: "ids_from port cs q (b\<lparr>calls := cl\<rparr>) b' = ids_from port cs q b b'"
  "ids_from port cs q b (b'\<lparr>calls := cl\<rparr>) = ids_from port cs q b b'"
  by (simp_all add: ids_from_def)

lemma setup_port_works:
  assumes "eal_works D" "cksum_capable D port" "vlan_capable D port" "port < 16" "distinct (workers_of D)"
    and "port < length (ports c)" "\<exists>a \<in> set (ip_addresses (ports c ! port)). pia_vlan a \<noteq> 0"
  shows "\<exists>b'. setup_port D port c b = Some (0, b') \<and> ids_from port (workers_of D) 0 b b' \<and>
    Start port \<in> set (calls b')"
proof -
  have c: "\<not> call_ret D c < 0" for c using assms(1) by (simp add: eal_works_def not_less)
  have ne: "ip_addresses (ports c ! port) \<noteq> []" using assms(7) by auto
  define b1 where "b1 = b\<lparr>calls := calls b @ [Configure port (lcore_count (eal_sys D) - 1)
      \<lparr>jumbo_frame = mtu (ports c ! port) > ETHER_MAX_LEN, max_rx_pkt_len = of_int (mtu (ports c ! port))\<rparr>]\<rparr>"
  obtain cl where v: "vlan_filters D port (ip_addresses (ports c ! port)) False b1 = (Some True, b1\<lparr>calls := calls b1 @ cl\<rparr>)"
    using vlan_filters_works [OF assms(1), of port "ip_addresses (ports c ! port)" False b1] assms(7) by auto
  obtain b2 where q: "setup_queues D port (lcore_count (eal_sys D)) True (b1\<lparr>calls := calls b1 @ cl\<rparr>) = Some (0, b2)"
    "ids_from port (workers_of D) 0 (b1\<lparr>calls := calls b1 @ cl\<rparr>) b2"
    using setup_queues_works [OF assms(1,3,4,5)] by blast
  have "setup_port D port c b = Some (0, b2\<lparr>calls := calls b2 @ [Start port]\<rparr>)"
    using assms(2,6) ne c v q(1) by (simp add: setup_port_def cksum_capable_def dev_call_def Let_def b1_def)
  moreover have "ids_from port (workers_of D) 0 b (b2\<lparr>calls := calls b2 @ [Start port]\<rparr>)"
    using q(2) by (simp add: ids_from_calls b1_def)
  ultimately show ?thesis by simp
qed

text \<open>The ports a device can serve and the file configures.\<close>

definition port_ready :: "eal \<Rightarrow> app_config \<Rightarrow> nat \<Rightarrow> bool" where
  "port_ready D c port \<longleftrightarrow> cksum_capable D port \<and> vlan_capable D port \<and> port < length (ports c) \<and>
     port < 16 \<and> (\<exists>a \<in> set (ip_addresses (ports c ! port)). pia_vlan a \<noteq> 0)"

definition same_boot :: "boot \<Rightarrow> boot \<Rightarrow> bool" where
  "same_boot b b' \<longleftrightarrow> ids b' = ids b \<and> core_stats b' = core_stats b \<and> confs b' = confs b \<and> launched b' = launched b"

lemma setup_ports_works:
  assumes "eal_works D" "distinct (workers_of D)"
  shows "\<forall>p \<in> set ps. port_ready D c p \<Longrightarrow> sized b (workers_of D) \<Longrightarrow> queues_numbered b (workers_of D) P \<Longrightarrow>
    \<exists>b'. setup_ports D ps c b = Some (0, b') \<and> sized b' (workers_of D) \<and>
      queues_numbered b' (workers_of D) (P \<union> set ps) \<and> same_boot b b'"
proof (induction ps arbitrary: b P)
  case Nil
  then show ?case by (simp add: same_boot_def)
next
  case (Cons p ps)
  have p: "cksum_capable D p" "vlan_capable D p" "p < 16" "p < length (ports c)"
    "\<exists>a \<in> set (ip_addresses (ports c ! p)). pia_vlan a \<noteq> 0"
    using Cons.prems(1) by (simp_all add: port_ready_def)
  obtain b1 where 1: "setup_port D p c b = Some (0, b1)" "ids_from p (workers_of D) 0 b b1"
    using setup_port_works [OF assms(1) p(1-3) assms(2) p(4,5)] by blast
  obtain b' where "setup_ports D ps c b1 = Some (0, b')" "sized b' (workers_of D)"
    "queues_numbered b' (workers_of D) (insert p P \<union> set ps)" "same_boot b1 b'"
    using Cons.IH [OF _ ids_from_sized [OF 1(2) Cons.prems(2)] ids_from_numbered [OF 1(2) Cons.prems(2) p(3) Cons.prems(3)]]
      Cons.prems(1) by auto
  with 1 show ?case by (simp add: same_boot_def ids_from_def)
qed

lemma init_workers_works:
  "\<forall>n. alloc_ok (mem (confs b)) n \<Longrightarrow> distinct cs \<Longrightarrow>
    \<exists>b' bs. init_workers cs b = (0, b') \<and> built (mem (confs b)) bs (mem (confs b')) \<and>
      map (core_stats b') cs = map (\<lambda>a. Some (a, stats0)) bs \<and> (\<forall>c \<in> set cs. ids b' c = of_nat c) \<and>
      (\<forall>c \<in> set cs. conf (confs b') c = None) \<and>
      (\<forall>c. c \<notin> set cs \<longrightarrow> conf (confs b') c = conf (confs b) c \<and> core_stats b' c = core_stats b c \<and> ids b' c = ids b c) \<and>
      rx_ids b' = rx_ids b \<and> tx_ids b' = tx_ids b \<and> launched b' = launched b"
proof (induction cs arbitrary: b)
  case Nil
  then show ?case by (auto intro: exI [of _ "[]"])
next
  case (Cons c cs)
  obtain a h where a: "rte_zmalloc (mem (confs b)) = (Some a, h)" "built (mem (confs b)) [a] h"
    using Cons.prems(1) rte_zmalloc_ok built_zmalloc by blast
  define b1 where "b1 = b\<lparr>ids := (ids b)(c := of_nat c),
     confs := (confs b)\<lparr>mem := h, conf := (conf (confs b))(c := None)\<rparr>,
     core_stats := (core_stats b)(c \<mapsto> (a, stats0))\<rparr>"
  have i: "init_workers (c # cs) b = init_workers cs b1"
    using a(1) by (simp add: init_natasha_app_stats_def b1_def)
  have m: "mem (confs b1) = h" "\<forall>n. alloc_ok (mem (confs b1)) n"
    using a(2) Cons.prems(1) by (simp_all add: b1_def built_def)
  obtain b' bs where b': "init_workers cs b1 = (0, b')" "built (mem (confs b1)) bs (mem (confs b'))"
    "map (core_stats b') cs = map (\<lambda>a. Some (a, stats0)) bs" "\<forall>c \<in> set cs. ids b' c = of_nat c"
    "\<forall>c \<in> set cs. conf (confs b') c = None"
    "\<forall>c. c \<notin> set cs \<longrightarrow> conf (confs b') c = conf (confs b1) c \<and> core_stats b' c = core_stats b1 c \<and> ids b' c = ids b1 c"
    "rx_ids b' = rx_ids b1" "tx_ids b' = tx_ids b1" "launched b' = launched b1"
    using Cons.IH [OF m(2)] Cons.prems(2) by auto
  have "built (mem (confs b)) (a # bs) (mem (confs b'))"
    using built_trans [OF a(2) b'(2) [unfolded m(1)]] by simp
  moreover have "core_stats b' c = Some (a, stats0)" "ids b' c = of_nat c" "conf (confs b') c = None"
    using b'(6) Cons.prems(2) by (simp_all add: b1_def)
  ultimately show ?case
    using i b' by (intro exI [of _ b'] exI [of _ "a # bs"]) (auto simp: b1_def)
qed

lemma run_workers_works:
  "eal_works D \<Longrightarrow> run_workers D cs b = (0, b\<lparr>launched := launched b @ cs\<rparr>)"
proof (induction cs arbitrary: b)
  case (Cons c cs)
  then have "\<not> launch_ret D c < 0" by (simp add: eal_works_def not_less)
  with Cons show ?case by simp
qed simp

section \<open>The whole startup\<close>

text \<open>A file and a machine on which startup works: every port has an address with a VLAN.\<close>

definition machine_ready :: "eal \<Rightarrow> config_item list \<Rightarrow> bool" where
  "machine_ready D items \<longleftrightarrow> eal_works D \<and> distinct (workers_of D) \<and>
     0 < dev_count (eal_sys D) \<and> dev_count (eal_sys D) \<le> 2 \<and> 2 \<le> lcore_count (eal_sys D) \<and>
     (\<forall>p < dev_count (eal_sys D). cksum_capable D p \<and> vlan_capable D p \<and>
        (\<exists>a \<in> set (snd (file_spec items p)). fst a \<noteq> 0))"

text \<open>The state before: the core structures are zeroed, with their arrays of 16 queues.\<close>

definition fresh_boot :: "eal \<Rightarrow> boot \<Rightarrow> bool" where
  "fresh_boot D b \<longleftrightarrow> sized b (workers_of D) \<and> heap_ok (mem (confs b)) \<and> (\<forall>n. alloc_ok (mem (confs b)) n)"

text \<open>The state after: what every worker has.\<close>

definition workers_ready :: "eal \<Rightarrow> config_item list \<Rightarrow> boot \<Rightarrow> bool" where
  "workers_ready D items b \<longleftrightarrow> fam (confs b) (set (workers_of D)) \<and> sized b (workers_of D) \<and>
     queues_numbered b (workers_of D) {0..<dev_count (eal_sys D)} \<and>
     (\<forall>c \<in> set (workers_of D). ids b c = of_nat c \<and> (\<exists>a. core_stats b c = Some (a, stats0)) \<and>
        (\<exists>x. conf (confs b) c = Some x \<and> parsed items x))"

lemma parsed_port_ready:
  assumes "machine_ready D items" "parsed items x" "p < dev_count (eal_sys D)"
  shows "port_ready D (snd x) p"
proof -
  obtain a where a: "a \<in> set (snd (ports_spec (snd x) p))" "fst a \<noteq> 0"
    using assms(1,3) parsed_spec [OF assms(2)] by (auto simp: machine_ready_def)
  then have "p < length (ports (snd x))" "\<exists>a \<in> set (ip_addresses (ports (snd x) ! p)). pia_vlan a \<noteq> 0"
    by (auto simp: ports_spec_def split: if_splits)
  with assms show ?thesis by (auto simp: port_ready_def machine_ready_def)
qed

text \<open>The first half of \<open>setup_app\<close>: a configuration is loaded, the ports are set up with it, and it is freed.\<close>

lemma setup_app_ports:
  assumes ready: "machine_ready D items" and good: "good_files F argv items" and fresh: "fresh_boot D b"
  shows "\<exists>x h1 b2 h2. app_config_load (F (loads (confs b))) argv (mem (confs b)) = Some (Some x, h1) \<and>
    setup_ports D [0..<dev_count (eal_sys D)] (snd x)
      (b\<lparr>confs := (confs b)\<lparr>mem := h1, loads := Suc (loads (confs b))\<rparr>\<rparr>) = Some (0, b2) \<and>
    app_config_free (Some x) (mem (confs b2)) = Some h2 \<and>
    heap_ok h2 \<and> (\<forall>n. alloc_ok h2 n) \<and> live h2 = live (mem (confs b)) \<and>
    sized b2 (workers_of D) \<and> queues_numbered b2 (workers_of D) {0..<dev_count (eal_sys D)} \<and> launched b2 = launched b"
proof -
  have h: "heap_ok (mem (confs b))" "\<forall>n. alloc_ok (mem (confs b)) n" "sized b (workers_of D)"
    and D: "eal_works D" "distinct (workers_of D)"
    using ready fresh by (auto simp: machine_ready_def fresh_boot_def)
  obtain x h1 where x: "app_config_load (F (loads (confs b))) argv (mem (confs b)) = Some (Some x, h1)" "config_live x h1"
    "parsed items x" "heap_ok h1" "\<forall>n. alloc_ok h1 n" "foot x \<inter> live (mem (confs b)) = {}"
    "live h1 = live (mem (confs b)) \<union> foot x"
    using good_load [OF good h(1,2), of "loads (confs b)"] by blast
  define b1 where "b1 = b\<lparr>confs := (confs b)\<lparr>mem := h1, loads := Suc (loads (confs b))\<rparr>\<rparr>"
  have s1: "sized b1 (workers_of D)" "queues_numbered b1 (workers_of D) {}"
    using h(3) by (simp_all add: sized_def queues_numbered_def b1_def)
  obtain b2 where b2: "setup_ports D [0..<dev_count (eal_sys D)] (snd x) b1 = Some (0, b2)" "sized b2 (workers_of D)"
    "queues_numbered b2 (workers_of D) ({} \<union> set [0..<dev_count (eal_sys D)])" "same_boot b1 b2"
    using setup_ports_works [OF D _ s1, of "[0..<dev_count (eal_sys D)]" "snd x"] parsed_port_ready [OF ready x(3)] by auto
  define h2 where "h2 = h1\<lparr>live := live h1 - foot x\<rparr>"
  have "app_config_free (Some x) (mem (confs b2)) = Some h2"
    using b2(4) app_config_free_live [OF x(2)] by (simp add: same_boot_def b1_def h2_def)
  moreover have "heap_ok h2" "\<forall>n. alloc_ok h2 n" "live h2 = live (mem (confs b))"
    using x(4-7) by (auto simp: h2_def heap_ok_def)
  moreover have "launched b2 = launched b" using b2(4) by (simp add: same_boot_def b1_def)
  ultimately show ?thesis
    using x(1) b2(1-3) unfolding b1_def by (intro exI [of _ x] exI [of _ h1] exI [of _ b2] exI [of _ h2]) simp
qed

text \<open>The second half: every worker gets its counters and its configuration.\<close>

lemma setup_app_workers:
  assumes good: "good_files F argv items" and cs: "distinct cs" and h: "heap_ok (mem (confs b))" "\<forall>n. alloc_ok (mem (confs b)) n"
  shows "\<exists>b' bs m. init_workers cs b = (0, b') \<and> app_config_reload_all F reads cs argv (confs b') = Some (0, m) \<and>
    fam m (set cs) \<and> (\<forall>c \<in> set cs. \<exists>x. conf m c = Some x \<and> parsed items x) \<and>
    map (core_stats b') cs = map (\<lambda>a. Some (a, stats0)) bs \<and> (\<forall>c \<in> set cs. ids b' c = of_nat c) \<and>
    rx_ids b' = rx_ids b \<and> tx_ids b' = tx_ids b \<and> launched b' = launched b \<and>
    live (mem m) = live (mem (confs b)) \<union> set bs \<union> feet m (set cs)"
proof -
  obtain b' bs where b': "init_workers cs b = (0, b')" "built (mem (confs b)) bs (mem (confs b'))"
    "map (core_stats b') cs = map (\<lambda>a. Some (a, stats0)) bs"
    "\<forall>c \<in> set cs. ids b' c = of_nat c" "\<forall>c \<in> set cs. conf (confs b') c = None"
    "rx_ids b' = rx_ids b" "tx_ids b' = tx_ids b" "launched b' = launched b"
    using init_workers_works [of b cs] cs h(2) by auto
  have fam: "fam (confs b') (set cs)" and feet: "feet (confs b') (set cs) = {}"
    using b'(2,5) h built_heap_ok [OF b'(2) h(1)] by (auto simp: fam_def feet_def built_def)
  have r: "\<forall>c \<in> set cs. conf (confs b') c \<noteq> None \<longrightarrow> (\<exists>k. reads c k AND NAT_FLAG_USED \<noteq> 0)"
    using b'(5) by simp
  obtain m where m: "app_config_reload_all F reads cs argv (confs b') = Some (0, m)" "fam m (set cs)"
    "\<forall>c \<in> set cs. \<exists>x. conf m c = Some x \<and> parsed items x"
    "live (mem m) = live (mem (confs b')) - {} \<union> feet m (set cs)"
    using reload_all_ok [OF good cs fam r] unfolding feet by blast
  have "live (mem m) = live (mem (confs b)) \<union> set bs \<union> feet m (set cs)" using m(4) b'(2) by (simp add: built_def)
  with b' m show ?thesis by (intro exI [of _ b'] exI [of _ bs] exI [of _ m]) simp
qed

lemma setup_app_works:
  assumes ready: "machine_ready D items" and good: "good_files F argv items" and fresh: "fresh_boot D b"
  shows "\<exists>b' bs. setup_app D F reads argv b = Some (0, b') \<and> workers_ready D items b' \<and>
    launched b' = launched b \<and> map (core_stats b') (workers_of D) = map (\<lambda>a. Some (a, stats0)) bs \<and>
    live (mem (confs b')) = live (mem (confs b)) \<union> set bs \<union> feet (confs b') (set (workers_of D))"
proof -
  have n: "dev_count (eal_sys D) \<noteq> 0" "\<not> lcore_count (eal_sys D) < 2" "distinct (workers_of D)"
    using ready by (auto simp: machine_ready_def)
  obtain x h1 b2 h2 where p: "app_config_load (F (loads (confs b))) argv (mem (confs b)) = Some (Some x, h1)"
    "setup_ports D [0..<dev_count (eal_sys D)] (snd x)
      (b\<lparr>confs := (confs b)\<lparr>mem := h1, loads := Suc (loads (confs b))\<rparr>\<rparr>) = Some (0, b2)"
    "app_config_free (Some x) (mem (confs b2)) = Some h2" "heap_ok h2" "\<forall>n. alloc_ok h2 n" "live h2 = live (mem (confs b))"
    "sized b2 (workers_of D)" "queues_numbered b2 (workers_of D) {0..<dev_count (eal_sys D)}" "launched b2 = launched b"
    using setup_app_ports [OF ready good fresh] by blast
  define b3 where "b3 = b2\<lparr>confs := (confs b2)\<lparr>mem := h2\<rparr>\<rparr>"
  have m3: "mem (confs b3) = h2" by (simp add: b3_def)
  obtain b4 bs m where w: "init_workers (workers_of D) b3 = (0, b4)"
    "app_config_reload_all F reads (workers_of D) argv (confs b4) = Some (0, m)" "fam m (set (workers_of D))"
    "\<forall>c \<in> set (workers_of D). \<exists>x. conf m c = Some x \<and> parsed items x"
    "map (core_stats b4) (workers_of D) = map (\<lambda>a. Some (a, stats0)) bs" "\<forall>c \<in> set (workers_of D). ids b4 c = of_nat c"
    "rx_ids b4 = rx_ids b3" "tx_ids b4 = tx_ids b3" "launched b4 = launched b3"
    "live (mem m) = live h2 \<union> set bs \<union> feet m (set (workers_of D))"
    using setup_app_workers [OF good n(3), of b3 reads] p(4,5) unfolding m3 by blast
  have "setup_app D F reads argv b = Some (0, b4\<lparr>confs := m\<rparr>)"
    using p(1-3) n w(1,2) by (simp add: setup_app_def Let_def b3_def [symmetric])
  moreover have "\<exists>a. core_stats b4 c = Some (a, stats0)" if "c \<in> set (workers_of D)" for c
    using that arg_cong [OF w(5), of set] by auto
  then have "workers_ready D items (b4\<lparr>confs := m\<rparr>)"
    using w(3,4,6-8) p(7,8) by (simp add: workers_ready_def b3_def sized_def queues_numbered_def)
  ultimately show ?thesis
    using w(5,9,10) p(6,9) by (intro exI [of _ "b4\<lparr>confs := m\<rparr>"] exI [of _ bs]) (simp add: b3_def)
qed

lemma main_works:
  assumes "machine_ready D items" "good_files F (drop (nat (eal_init M)) argv) items" "fresh_boot D b"
    and "0 \<le> stderr_getfl M" "0 \<le> stderr_setfl M" "0 \<le> eal_init M"
  shows "\<exists>b' bs. main D M F reads argv b =
      Some (b', Inr (fst (adm_server (eal_sys D) (adm_socket M) (confs b') (adm_rounds_env M)))) \<and>
    workers_ready D items b' \<and> launched b' = launched b @ workers_of D \<and>
    map (core_stats b') (workers_of D) = map (\<lambda>a. Some (a, stats0)) bs \<and>
    live (mem (confs b')) = live (mem (confs b)) \<union> set bs \<union> feet (confs b') (set (workers_of D))"
proof -
  obtain b1 bs where 1: "setup_app D F reads (drop (nat (eal_init M)) argv) b = Some (0, b1)"
    "workers_ready D items b1" "launched b1 = launched b"
    "map (core_stats b1) (workers_of D) = map (\<lambda>a. Some (a, stats0)) bs"
    "live (mem (confs b1)) = live (mem (confs b)) \<union> set bs \<union> feet (confs b1) (set (workers_of D))"
    using setup_app_works [OF assms(1-3)] by blast
  have "eal_works D" using assms(1) by (simp add: machine_ready_def)
  from run_workers_works [OF this, of "workers_of D" b1] 1 assms(4-6) show ?thesis
    by (intro exI [of _ "b1\<lparr>launched := launched b @ workers_of D\<rparr>"] exI [of _ bs])
      (simp add: main_def workers_ready_def sized_def queues_numbered_def)
qed

text \<open>
  C14. Startup works: on a machine whose devices support what is needed, with memory, and with a file that
  gives every port an address with a VLAN, \<open>main\<close> reaches the administration server with
  every worker launched; each worker has its number, zeroed counters, its own configuration with the
  contents of the file, and queue \<open>i\<close> of every port for the worker at position \<open>i\<close>; the configuration loaded
  to set up the ports is freed, and nothing else is allocated.
\<close>

theorem startup_succeeds:
  assumes "machine_ready D items" "good_files F (drop (nat (eal_init M)) argv) items" "fresh_boot D b"
    and "0 \<le> stderr_getfl M" "0 \<le> stderr_setfl M" "0 \<le> eal_init M"
  shows "\<exists>b' bs. main D M F reads argv b =
      Some (b', Inr (fst (adm_server (eal_sys D) (adm_socket M) (confs b') (adm_rounds_env M)))) \<and>
    workers_ready D items b' \<and> launched b' = launched b @ workers_of D \<and>
    map (core_stats b') (workers_of D) = map (\<lambda>a. Some (a, stats0)) bs \<and>
    live (mem (confs b')) = live (mem (confs b)) \<union> set bs \<union> feet (confs b') (set (workers_of D))"
  using assms by (rule main_works)

section \<open>Samples\<close>

text \<open>A machine with two devices and two workers; port 0 has VLAN 6, port 1 VLANs 7 and 8.\<close>

definition sample_info :: rte_eth_dev_info where
  "sample_info = \<lparr>driver_name = ''net_ixgbe'', default_txconf = \<lparr>txq_flags = 0xf01, tx_offloads = 0\<rparr>,
     default_rxconf = \<lparr>rx_offloads = 0\<rparr>, tx_offload_capa = 0xf, rx_offload_capa = 0xf\<rparr>"

definition sample_eal :: eal where
  "sample_eal = \<lparr>eal_sys = sample_sys, dev_info = (\<lambda>_. sample_info), vlan_offload = (\<lambda>_. 0),
     socket_of = (\<lambda>c. int (c mod 2)), call_ret = (\<lambda>_. 0), pool_ok = (\<lambda>_. True),
     link_up = (\<lambda>k p. p < k), launch_ret = (\<lambda>_. 0)\<rparr>"

definition vlan_items :: "config_item list" where
  "vlan_items =
    [Config_section [L_port 0 None (Some 6) 0x0A000001 [],
       L_port 1 (Some 9000) (Some 7) 0xC0A80001 [(Some 8, 0xC0A80101)],
       L_nat_rule 0x0A000102 0xD4303132],
     Rules_section doc_rules]"

definition vlan_files :: files where
  "vlan_files = \<lparr>fopen_ok = (\<lambda>_. True), yylex_init_ok = True, parse_of = (\<lambda>_. Accepted vlan_items)\<rparr>"

definition sample_boot :: boot where
  "sample_boot = \<lparr>calls = [], rx_ids = (\<lambda>_. replicate 16 0), tx_ids = (\<lambda>_. replicate 16 0), ids = (\<lambda>_. 0),
     core_stats = (\<lambda>_. None), confs = sample_master, launched = []\<rparr>"

definition sample_main :: main_env where
  "sample_main = \<lparr>stderr_getfl = 2, stderr_setfl = 0, eal_init = 3,
     adm_socket = \<lparr>ev_socket = 3, ev_setsockopt = 0, ev_nonblock = 0, ev_bind = 0, ev_listen = 0\<rparr>,
     adm_rounds_env = [sample_env]\<rparr>"

lemma sample_eal_ok:
  "eal_works sample_eal" "cksum_capable sample_eal p" "vlan_capable sample_eal p"
  "workers_of sample_eal = [1, 2]" "fresh_boot sample_eal sample_boot" "sized sample_boot [1, 2]"
  by (simp_all add: eal_works_def sample_eal_def cksum_capable_def vlan_capable_def sample_info_def sample_sys_def
      DEV_TX_OFFLOAD_IPV4_CKSUM_def DEV_TX_OFFLOAD_TCP_CKSUM_def DEV_TX_OFFLOAD_UDP_CKSUM_def
      DEV_TX_OFFLOAD_VLAN_INSERT_def fresh_boot_def sized_def sample_boot_def sample_master_def nth_Cons')

lemma sample_machine_ready: "machine_ready sample_eal vlan_items"
proof -
  have "p < 2 \<Longrightarrow> \<exists>a \<in> set (snd (file_spec vlan_items p)). fst a \<noteq> 0" for p
    by (auto simp: file_spec_def vlan_items_def addr_spec_def opt_vlan_def less_2_cases_iff)
  then show ?thesis
    using sample_eal_ok by (auto simp: machine_ready_def sample_eal_def [THEN arg_cong, of eal_sys] sample_sys_def)
qed

lemma vlan_files_good: "good_files (\<lambda>_. vlan_files) [''--'', ''-f'', ''x''] vlan_items"
  by (simp add: good_files_def in_range_def tidy_def vlan_items_def readable_def vlan_files_def)

theorem link_check_terminates_witness:
  "check_ports_link_status sample_eal 2 = (3, True, 200)"
proof -
  have l: "links_up (link_up sample_eal) 2 k \<longleftrightarrow> 2 \<le> k" for k
    by (auto simp: links_up_def sample_eal_def less_2_cases_iff)
  have e: "\<exists>k < 90. links_up (link_up sample_eal) 2 k" unfolding l by (intro exI [of _ 2]) simp
  obtain m where m: "links_up (link_up sample_eal) 2 m" "\<forall>k < m. \<not> links_up (link_up sample_eal) 2 k"
    "check_ports_link_status sample_eal 2 = (Suc m, True, 100 * m)"
    using link_check_terminates [of sample_eal 2] e by auto
  have "2 \<le> m" "\<not> 2 < m" using m(1,2) unfolding l by (blast, blast)
  then have "m = 2" by simp
  with m(3) show ?thesis by simp
qed

theorem setup_queues_assign_witness:
  "\<exists>b'. setup_queues sample_eal 1 3 True sample_boot = Some (0, b') \<and> rx_ids b' 2 ! 1 = 1 \<and>
    Tx_stats_mapping 1 1 3 \<in> set (calls b')"
proof -
  have q: "queue_stats sample_eal 1"
    by (simp add: queue_stats_def support_per_queue_statistics_def sample_eal_def sample_info_def)
  have d: "distinct (workers_of sample_eal)" "sized sample_boot (workers_of sample_eal)" "(1 :: nat) < 16"
    using sample_eal_ok by simp_all
  have n: "length (workers_of sample_eal) = 2" "(1 :: nat) < 2" "workers_of sample_eal ! 1 = 2" "Suc 2 = 3" "int (2 + 1) = 3"
    by (simp_all add: sample_eal_ok)
  obtain b' where b': "setup_queues sample_eal 1 (Suc 2) True sample_boot = Some (0, b')"
    "queues_numbered b' (workers_of sample_eal) {1}"
    "\<forall>i < 2. queue_stats sample_eal 1 \<longrightarrow> Tx_stats_mapping 1 i (int (2 + i)) \<in> set (calls b')"
    using setup_queues_assign [OF sample_eal_ok(1) sample_eal_ok(3) d(3,1,2)] unfolding n(1) by blast
  have "Tx_stats_mapping 1 1 (int (2 + 1)) \<in> set (calls b')" using b'(3) n(2) q by blast
  moreover have "rx_ids b' (workers_of sample_eal ! 1) ! 1 = of_nat 1"
    using b'(2) [unfolded queues_numbered_def n(1), rule_format, of 1 1] by simp
  ultimately show ?thesis using b'(1) unfolding n by auto
qed

theorem setup_port_no_vlan_undefined_witness:
  "setup_port sample_eal 0 config0 sample_boot = None"
  by (rule setup_port_no_vlan_undefined) (simp_all add: sample_eal_ok config0_def)

theorem startup_succeeds_witness:
  "\<exists>b'. (\<exists>r. main sample_eal sample_main (\<lambda>_. vlan_files) (\<lambda>c k. 0)
      [''natasha'', ''-c'', ''7'', ''--'', ''-f'', ''x''] sample_boot = Some (b', Inr r)) \<and>
    launched b' = [1, 2] \<and> workers_ready sample_eal vlan_items b'"
  using startup_succeeds [of sample_eal vlan_items "\<lambda>_. vlan_files" sample_main
      "[''natasha'', ''-c'', ''7'', ''--'', ''-f'', ''x'']" sample_boot "\<lambda>c k. 0"]
    sample_machine_ready vlan_files_good sample_eal_ok(4,5)
  by (auto simp: sample_main_def sample_boot_def [THEN arg_cong, of launched])

end
