(* ===== verification/Spec2Isabelle.thy ===== *)
theory Spec2Isabelle
  imports Startup
begin

text \<open>
  Natasha (\<open>src/\<close>) is a stateless NAT44 router on DPDK.  This library models the router and proves
  what makes it correct, from the configuration file to the packets on the wire.

  \<^bold>\<open>The program.\<close>  \<open>main\<close> initialises DPDK, loads a configuration to set up the ports and their queues, gives
  every worker core its counters and a configuration of its own, launches the workers and runs the
  administration server on the master core.  A worker loops for ever: it takes bursts of packets from its queue of
  every port, dispatches each packet to the ARP or the IPv4 handler and flushes its transmit queues.
  The IPv4 handler answers echo requests to the router and runs the rules of the configuration, a
  tree of conditions and actions, on everything else; the central action rewrites an address with the NAT table.
  The administration server answers queries and, on request, reloads the configuration of
  every worker while the workers run, or shuts the router down.

  \<^bold>\<open>The theories\<close>, with the source each models (file names under \<open>src/src\<close>):

  \<^item> \<open>Natasha_Prelude\<close>: machine words, byte buffers with checked loads and stores, byte order.
  \<^item> \<open>Checksum\<close>: \<open>cksum_update\<close> (\<open>network_headers.h\<close>) against the checksum of RFC 1071.
  \<^item> \<open>Nat_Table\<close>, \<open>Nat_Rules\<close>: the three-level lookup table of \<open>action_nat.c\<close> with its memory, its
    iteration and its dump; the locale \<open>rule_table\<close> is the interface of such a table, interpreted on it.
  \<^item> \<open>Natasha_State\<close>: the structures of \<open>natasha.h\<close>, \<open>conds.h\<close>, \<open>actions.h\<close> and \<open>cli.h\<close> that the packet
    path uses, the state \<open>world\<close> of a worker, and DPDK as a record of functions.
  \<^item> \<open>Tx_Queue\<close>: \<open>pkt.c\<close>; the locale \<open>packet_sink\<close> says what a client of \<open>tx_send\<close> relies on.
  \<^item> \<open>Actions\<close>: \<open>action_nat.c\<close> (rewriting), \<open>action_drop.c\<close>, \<open>action_log.c\<close>, \<open>action_out.c\<close>, \<open>cond_network.c\<close>, \<open>cond_vlan.c\<close>.
  \<^item> \<open>Ipv4\<close>, \<open>Arp\<close>: \<open>ipv4.c\<close> and \<open>arp.c\<close>; the locale \<open>rule_functions\<close> is the contract between the rule interpreter and
    the functions it calls, the locale \<open>packet_handler\<close> the one between the worker loop and the two handlers.
  \<^item> \<open>Core_Loop\<close>: \<open>dispatch_packet\<close>, \<open>handle_port\<close> and \<open>main_loop\<close> of \<open>core.c\<close>.
  \<^item> \<open>Reload\<close>: the memory accesses of \<open>app_config_reload_all\<close> (\<open>config.c\<close>) interleaved with those of the
    workers, as a step relation.
  \<^item> \<open>Parse_Config\<close>: the semantic actions of the grammar \<open>parseconfig.y\<close>, and the meaning of the text of the rules.
  \<^item> \<open>Config\<close>: \<open>config.c\<close>, that is loading, freeing and reloading, with all memory and all error paths.
  \<^item> \<open>Adm\<close>: \<open>adm.c\<close>, the protocol of \<open>cli.h\<close>, and \<open>natasha_exit\<close> and \<open>sigterm_handler\<close> of \<open>core.c\<close>; the locale
    \<open>command_handler\<close> is the contract between the loop and the commands, interpreted on all seven.
  \<^item> \<open>Startup\<close>: the rest of \<open>core.c\<close>, from \<open>main\<close> to the queues.
  \<^item> This theory: the properties that span the components.

  \<^bold>\<open>How the code is represented.\<close>  Integers have their width (\<open>u8\<close> to \<open>u64\<close>, wrapping), except that an \<open>int\<close> that only
  carries a result or a small count is an \<open>int\<close>, and loop counters bounded by an array are \<open>nat\<close>.  A packet is a byte buffer
  and the headers are offsets into it.  A pointer to an mbuf is a number; \<open>mbufs\<close> says which are allocated, \<open>freed\<close> and
  \<open>wire\<close> record where packets went.  Memory from \<open>rte_zmalloc\<close> is the record \<open>heap\<close> with the set of live blocks and an oracle
  for failures.  A function that can be undefined returns an option: \<open>None\<close> stands for an access outside an array
  or a buffer, use after free, double free, an uninitialised value given away, an undefined shift, or, for the wait of a reload, for not
  returning.  Result codes are kept as the code has them, so every early return is a branch of its definition.

  \<^bold>\<open>What the lemmas show.\<close>
  \<^item> Safety of the packet path: on well-formed frames and a valid configuration every operation is defined,
    every packet is sent, freed or queued exactly once, the counters add up to the packets freed, and the queues are
    empty after every round (\<open>Core_Loop\<close>, resting on contracts of all handlers).
  \<^item> Translation: the incremental checksum is the recomputed one; a table translates exactly the rules it was built
    from and is its own inverse; rewriting keeps all checksums valid, also in the packet an ICMP error quotes.
  \<^item> The rules: the tree the parser builds means what the text means, is well typed, and ends in \<open>out\<close> or \<open>drop\<close>
    exactly if the text does.
  \<^item> Configurations: loading and freeing are inverse on memory; a reload gives every worker the new
    configuration and frees the old ones; no interleaving lets a worker touch a freed one.
  \<^item> Administration: the client table is consistent in every run, statistics arrive intact, shutdown is orderly.
  \<^item> Startup: it succeeds on a working machine and ends in a state in which the workers are safe.
  \<^item> What goes wrong: the theorems of kind error state undefined or unintended behaviour of the code as it is.

  \<^bold>\<open>Assumptions and bounds.\<close>  The host is little-endian.  DPDK, the operating system, the file system and the
  tables bison and flex generate are parameters; what is assumed of them is in \<open>dpdk_ok\<close>, \<open>nic_ok\<close>, \<open>files\<close>, \<open>calls_ok\<close>,
  \<open>env_ok\<close> and \<open>eal_works\<close>, and each has an instance among the samples.  A received frame has room for the headers the code
  reads without looking at the length (\<open>frame_ok\<close>, 62 bytes); shorter data rooms do not occur, since pools have 9216 bytes per packet.
  The interleavings of a reload are sequentially consistent.  The endless loops of a worker and of the server
  are run for the length of a list, one element for each round; the theorems hold for all lists.
  The wait of a reload is a partial function, and whether it returns is a theorem.

  \<^bold>\<open>Not modelled.\<close>  Log lines (the packet reads they make are); the scanner \<open>parseconfig.lex\<close> and the automaton made from the
  grammar, which are generated; packet capture (\<open>RTE_LIBRTE_PDUMP\<close>); the NUMA socket of an allocation; signals
  that arrive while a handler runs; the test programs.
\<close>

section \<open>From startup to running workers\<close>

text \<open>
  What the worker launched on core \<open>c\<close> starts with: the core structure that startup filled in, with empty
  transmit queues, and no packets.
\<close>

definition worker_world :: "boot \<Rightarrow> nat \<Rightarrow> app_config \<Rightarrow> world" where
  "worker_world b c cfg = \<lparr>wcore = \<lparr>core_config = cfg, rx_queues = rx_ids b c,
       tx_queues = map (\<lambda>i. empty_queue\<lparr>tq_id := i\<rparr>) (tx_ids b c),
       stats = (case core_stats b c of Some (a, s) \<Rightarrow> s | None \<Rightarrow> stats0), core_id = ids b c\<rparr>,
     mbufs = Map.empty, freed = [], wire = [], bursts = 0, arrived = 0\<rparr>"

lemma worker_world_simps [simp]:
  "config_of (worker_world b c cfg) = cfg" "rx_queues (wcore (worker_world b c cfg)) = rx_ids b c"
  "queues_of (worker_world b c cfg) = map (\<lambda>i. empty_queue\<lparr>tq_id := i\<rparr>) (tx_ids b c)"
  by (simp_all add: worker_world_def)




section \<open>From the configuration file to the wire\<close>

text \<open>
  C3. The NAT rules of the configuration file are what happens to packets: for a rule \<open>a b\<close> of a file with
  consistent rules, the loaded configuration makes the source rewriting turn the source address \<open>a\<close> of a packet into \<open>b\<close> and
  the destination rewriting turn the destination address \<open>b\<close> back into \<open>a\<close>, with a valid header checksum.
\<close>

theorem nat_file_to_wire:
  assumes "heap_ok h" "\<forall>n. alloc_ok h n" "readable F argv name" "parse_of F name = Accepted items"
    and "in_range (file_ports items)" "good_rules (file_nat items)" "(a, b) \<in> set (file_nat items)"
    and "app_config_load F argv h = Some (Some x, h')" "config_of w = snd x"
    and m: "mbufs w p = Some m" "62 \<le> length (buf m)" "cksum_ok (rdn (buf m) 14 20)"
      "l4_proto (buf m) = IPPROTO_ICMP \<Longrightarrow> \<not> icmp_error_type (buf m ! 34)"
  shows "(bswap32 (rd32 (buf m) 26) = a \<longrightarrow> (\<exists>w' m'. action_nat_rewrite IPV4_SRC_ADDR p port w = Some (0, w') \<and>
      mbufs w' p = Some m' \<and> bswap32 (rd32 (buf m') 26) = b \<and> cksum_ok (rdn (buf m') 14 20))) \<and>
    (bswap32 (rd32 (buf m) 30) = b \<longrightarrow> (\<exists>w' m'. action_nat_rewrite IPV4_DST_ADDR p port w = Some (0, w') \<and>
      mbufs w' p = Some m' \<and> bswap32 (rd32 (buf m') 30) = a \<and> cksum_ok (rdn (buf m') 14 20)))"
proof (intro conjI impI)
  have t: "table_of (config_of w) a = Some (bswap32 b)" "table_of (config_of w) b = Some (bswap32 a)"
    using load_table [OF assms(1-8)] assms(9) by simp_all
  have off: "nat_off IPV4_SRC_ADDR = 26" "nat_off IPV4_DST_ADDR = 30"
    by (simp_all add: nat_off_def IPV4_SRC_ADDR_def IPV4_DST_ADDR_def)
  show "\<exists>w' m'. action_nat_rewrite IPV4_SRC_ADDR p port w = Some (0, w') \<and>
      mbufs w' p = Some m' \<and> bswap32 (rd32 (buf m') 26) = b \<and> cksum_ok (rdn (buf m') 14 20)"
    if "bswap32 (rd32 (buf m) 26) = a"
  proof -
    have "table_of (config_of w) (bswap32 (rd32 (buf m) (nat_off IPV4_SRC_ADDR))) = Some (bswap32 b)"
      using t(1) that by (simp add: off)
    from nat_rewrite_hit [OF m(1,2) this m(3,4), of port] show ?thesis by (auto simp: off)
  qed
  show "\<exists>w' m'. action_nat_rewrite IPV4_DST_ADDR p port w = Some (0, w') \<and>
      mbufs w' p = Some m' \<and> bswap32 (rd32 (buf m') 30) = a \<and> cksum_ok (rdn (buf m') 14 20)"
    if "bswap32 (rd32 (buf m) 30) = b"
  proof -
    have "table_of (config_of w) (bswap32 (rd32 (buf m) (nat_off IPV4_DST_ADDR))) = Some (bswap32 a)"
      using t(2) that by (simp add: off)
    from nat_rewrite_hit [OF m(1,2) this m(3,4), of port] show ?thesis by (auto simp: off)
  qed
qed

section \<open>Samples\<close>


theorem nat_file_to_wire_witness:
  "\<exists>x h' w' m'. app_config_load vlan_files [] heap0 = Some (Some x, h') \<and>
    action_nat_rewrite IPV4_SRC_ADDR 0 0 (world0 (snd x) [mbuf_of tcp_pkt]) = Some (0, w') \<and>
    mbufs w' 0 = Some m' \<and> bswap32 (rd32 (buf m') 26) = 0xD4303132"
proof -
  have 1: "readable vlan_files [] ''/etc/natasha.conf''" "parse_of vlan_files ''/etc/natasha.conf'' = Accepted vlan_items"
    by (simp_all add: readable_def vlan_files_def default_config_file_def)
  have 2: "in_range (file_ports vlan_items)" "good_rules (file_nat vlan_items)"
      "(0x0A000102, 0xD4303132) \<in> set (file_nat vlan_items)"
    by (simp_all add: in_range_def vlan_items_def good_rules_def file_nat_def)
  obtain x h' where x: "app_config_load vlan_files [] heap0 = Some (Some x, h')"
    using load_accepted [of heap0 vlan_files "[]" "''/etc/natasha.conf''" vlan_items] 1 2 by auto
  have "bswap32 (rd32 tcp_pkt 26) = 0x0A000102"
    using tcp_pkt_facts(4) by (simp add: nat_off_def IPV4_SRC_ADDR_def)
  then show ?thesis
    using nat_file_to_wire [OF _ _ 1 2 x, of "world0 (snd x) [mbuf_of tcp_pkt]" 0 "mbuf_of tcp_pkt" 0]
      x tcp_pkt_facts proto_consts by auto
qed

end
